theory Spec2Isabelle
  imports Complex_Main "HOL-Library.Multiset"
begin

unbundle bit_operations_syntax

section \<open>Errors and JavaScript primitives\<close>

text \<open>
  A thrown JavaScript exception is a value of \<open>error\<close>; a function of the source that can
  throw returns \<open>error + 'a\<close>, with \<open>Inl\<close> for the exception. \<open>TypeError\<close> is what the
  runtime raises when a method is called on \<open>undefined\<close>; \<open>Error msg\<close> is
  \<^verbatim>\<open>throw new Error(msg)\<close>; \<open>SystemError\<close> stands for the exceptions of the \<^verbatim>\<open>fs\<close> and
  \<^verbatim>\<open>crypto\<close> modules.
\<close>

datatype error = TypeError | Error string | SystemError string

text \<open>
  \<^verbatim>\<open>a % n\<close> on integers: the sign of the dividend, the magnitude of \<open>\<bar>a\<bar> mod \<bar>n\<bar>\<close>,
  and \<open>NaN\<close> (here \<open>None\<close>) when \<open>n = 0\<close>.
\<close>

definition js_rem :: "int \<Rightarrow> int \<Rightarrow> int option" where
  "js_rem a n = (if n = 0 then None else Some (sgn a * (\<bar>a\<bar> mod \<bar>n\<bar>)))"

text \<open>\<^verbatim>\<open>xs[i]\<close>: \<open>undefined\<close> (here \<open>None\<close>) outside the array.\<close>

definition js_index :: "'a list \<Rightarrow> int \<Rightarrow> 'a option" where
  "js_index xs i = (if 0 \<le> i \<and> i < int (length xs) then Some (xs ! nat i) else None)"

text \<open>Truthiness of an optional string: \<open>undefined\<close> and the empty string are falsy.\<close>

definition truthy :: "string option \<Rightarrow> bool" where
  "truthy u = (case u of None \<Rightarrow> False | Some s \<Rightarrow> s \<noteq> [])"

section \<open>CRC-32 of the package \<^verbatim>\<open>crc-32\<close>\<close>

text \<open>
  \<^verbatim>\<open>crc32.str\<close> is the CRC-32/ISO-HDLC checksum (reflected polynomial \<open>0xEDB88320\<close>,
  initial value and final XOR \<open>0xFFFFFFFF\<close>) of the UTF-8 bytes of a string, returned as a
  signed 32-bit integer. A string is its list of UTF-8 bytes. The register is a natural
  number below \<open>2 ^ 32\<close>: the algorithm only shifts right and XORs with 32-bit constants,
  so nothing wraps before the final conversion to a signed value, which is written out.
\<close>

definition crc_bit :: "nat \<Rightarrow> nat" where
  "crc_bit c = (if odd c then (c div 2) XOR 0xEDB88320 else c div 2)"

definition crc_byte :: "nat \<Rightarrow> char \<Rightarrow> nat" where
  "crc_byte c b =
     crc_bit (crc_bit (crc_bit (crc_bit (crc_bit (crc_bit (crc_bit (crc_bit
       (c XOR of_char b))))))))"

definition crc32_unsigned :: "string \<Rightarrow> nat" where
  "crc32_unsigned s = foldl crc_byte 0xFFFFFFFF s XOR 0xFFFFFFFF"

definition crc32_str :: "string \<Rightarrow> int" where
  "crc32_str s =
     (let u = crc32_unsigned s in if u < 2 ^ 31 then int u else int u - 2 ^ 32)"

section \<open>The data model\<close>

text \<open>
  The entity classes \<^verbatim>\<open>File\<close> and \<^verbatim>\<open>ClusterEntity\<close> are imported by the source; the
  records below have the fields the source reads (\<^verbatim>\<open>path\<close>, \<^verbatim>\<open>hash\<close>, \<^verbatim>\<open>url\<close>;
  \<^verbatim>\<open>clusterId\<close>, \<^verbatim>\<open>shards\<close>, \<^verbatim>\<open>isOnline\<close>, \<^verbatim>\<open>isBanned\<close>, \<^verbatim>\<open>isProxyCluster\<close>) and the
  fields of the manifest schema (\<^verbatim>\<open>size\<close>, \<^verbatim>\<open>lastModified\<close>).
\<close>

record File =
  path :: string
  hash :: string
  fsize :: int
  lastModified :: int
  url :: "string option"

record ClusterEntity =
  clusterId :: string
  shards :: int
  isOnline :: bool
  isBanned :: bool
  isProxyCluster :: bool

text \<open>The private fields \<^verbatim>\<open>_files\<close>, \<^verbatim>\<open>_clusters\<close> and \<^verbatim>\<open>_shards\<close> of a \<^verbatim>\<open>FileList\<close>.\<close>

record FileList =
  fl_files :: "File list"
  fl_clusters :: "ClusterEntity list"
  fl_shards :: "File list list"

definition SHARD_COUNT :: int where
  "SHARD_COUNT = 1000"

section \<open>Sharding\<close>

definition getShardIndex :: "string \<Rightarrow> int \<Rightarrow> int option" where
  "getShardIndex value totalShards =
     (let crcValue = \<bar>crc32_str value\<bar> in js_rem crcValue totalShards)"

text \<open>
  The \<^verbatim>\<open>forEach\<close> of \<^verbatim>\<open>splitIntoShards\<close>: \<^verbatim>\<open>shards[shardIndex].push(obj)\<close> throws a
  \<open>TypeError\<close> when \<^verbatim>\<open>shards[shardIndex]\<close> is \<open>undefined\<close>, that is when the index is
  \<open>NaN\<close> or outside the array. The local array \<^verbatim>\<open>shards\<close> is \<open>shs\<close>.
\<close>

fun push_objects :: "int \<Rightarrow> File list \<Rightarrow> File list list \<Rightarrow> error + File list list" where
  "push_objects totalShards [] shs = Inr shs"
| "push_objects totalShards (obj # objs) shs =
     (case getShardIndex (path obj) totalShards of
        None \<Rightarrow> Inl TypeError
      | Some shardIndex \<Rightarrow>
          (if 0 \<le> shardIndex \<and> shardIndex < int (length shs)
           then push_objects totalShards objs
                  (shs[nat shardIndex := shs ! nat shardIndex @ [obj]])
           else Inl TypeError))"

text \<open>\<^verbatim>\<open>Array.from({ length: totalShards }, () => [])\<close> has no element for a length below 1.\<close>

definition splitIntoShards :: "File list \<Rightarrow> int \<Rightarrow> error + File list list" where
  "splitIntoShards objects totalShards =
     push_objects totalShards objects (replicate (nat totalShards) [])"

definition notifyUpdateShards :: "FileList \<Rightarrow> error + FileList" where
  "notifyUpdateShards fl =
     (case splitIntoShards (fl_files fl) SHARD_COUNT of
        Inl e \<Rightarrow> Inl e
      | Inr s \<Rightarrow> Inr (fl\<lparr>fl_shards := s\<rparr>))"

text \<open>The constructor and the two setters. An array, even an empty one, is truthy.\<close>

definition new_FileList :: "File list option \<Rightarrow> ClusterEntity list option \<Rightarrow> error + FileList" where
  "new_FileList files clusters =
     notifyUpdateShards
       \<lparr>fl_files = (case files of Some fs \<Rightarrow> fs | None \<Rightarrow> []),
        fl_clusters = (case clusters of Some cs \<Rightarrow> cs | None \<Rightarrow> []),
        fl_shards = []\<rparr>"

definition set_files :: "FileList \<Rightarrow> File list \<Rightarrow> error + FileList" where
  "set_files fl files = notifyUpdateShards (fl\<lparr>fl_files := files\<rparr>)"

definition set_clusters :: "FileList \<Rightarrow> ClusterEntity list \<Rightarrow> FileList" where
  "set_clusters fl clusters = fl\<lparr>fl_clusters := clusters\<rparr>"

text \<open>
  The state every constructor and setter call leaves behind: \<^verbatim>\<open>_shards\<close> is the partition
  of \<^verbatim>\<open>_files\<close>.
\<close>

definition in_sync :: "FileList \<Rightarrow> bool" where
  "in_sync fl = (splitIntoShards (fl_files fl) SHARD_COUNT = Inr (fl_shards fl))"

text \<open>The bucket a partition into \<open>n\<close> shards gives to index \<open>i\<close>.\<close>

definition bucket :: "int \<Rightarrow> File list \<Rightarrow> nat \<Rightarrow> File list" where
  "bucket n objects i = filter (\<lambda>f. getShardIndex (path f) n = Some (int i)) objects"

section \<open>Lookups and availability\<close>

text \<open>
  The \<^verbatim>\<open>"path"\<close> branch of \<^verbatim>\<open>getFiles\<close>: the shard index of the value, then
  \<^verbatim>\<open>this._shards[index].filter(...)\<close>, a \<open>TypeError\<close> when \<^verbatim>\<open>this._shards[index]\<close> is
  \<open>undefined\<close>.
\<close>

definition getFiles_path :: "FileList \<Rightarrow> string \<Rightarrow> error + File list" where
  "getFiles_path fl value =
     (case getShardIndex value SHARD_COUNT of
        None \<Rightarrow> Inl TypeError
      | Some index \<Rightarrow>
          (if 0 \<le> index \<and> index < int (length (fl_shards fl))
           then Inr (filter (\<lambda>file. path file = value) (fl_shards fl ! nat index))
           else Inl TypeError))"

text \<open>
  \<^verbatim>\<open>this._files.find(file => file.hash === value)?.path || ""\<close>: the empty string when
  no record is found, and also when the record found has the empty (falsy) path.
\<close>

definition path_of_hash :: "FileList \<Rightarrow> string \<Rightarrow> string" where
  "path_of_hash fl value =
     (case find (\<lambda>file. hash file = value) (fl_files fl) of
        None \<Rightarrow> []
      | Some file \<Rightarrow> (if path file = [] then [] else path file))"

definition getFiles :: "FileList \<Rightarrow> string \<Rightarrow> string \<Rightarrow> error + File list" where
  "getFiles fl type value =
     (if type = ''path'' then getFiles_path fl value
      else if type = ''hash'' then getFiles_path fl (path_of_hash fl value)
      else Inl (Error ''Invalid type''))"

definition getAvailableFiles :: "FileList \<Rightarrow> ClusterEntity \<Rightarrow> File list" where
  "getAvailableFiles fl cluster =
     filter (\<lambda>f. truthy (url f) \<or> \<not> isProxyCluster cluster)
       (concat (map snd
          (filter (\<lambda>(index, _). shards cluster \<ge> int index) (enumerate 0 (fl_shards fl)))))"

text \<open>\<open>NaN <= x\<close> is false.\<close>

definition availableInCluster :: "File \<Rightarrow> ClusterEntity \<Rightarrow> bool" where
  "availableInCluster file cluster =
     (if \<not> truthy (url file) \<and> isProxyCluster cluster then False
      else (case getShardIndex (path file) SHARD_COUNT of
              None \<Rightarrow> False
            | Some index \<Rightarrow> index \<le> shards cluster))"

text \<open>
  The parameters \<^verbatim>\<open>file\<close> (\<^verbatim>\<open>null\<close> by default) and \<^verbatim>\<open>clusters\<close> (\<^verbatim>\<open>undefined\<close> by
  default) are options. The loop pushes, in order, the clusters that pass
  \<open>availableInCluster\<close>.
\<close>

definition getAvailableClusters ::
    "FileList \<Rightarrow> File option \<Rightarrow> ClusterEntity list option \<Rightarrow> ClusterEntity list" where
  "getAvailableClusters fl file clusters =
     (let values = filter (\<lambda>c. isOnline c \<and> \<not> isBanned c)
                     (case clusters of Some cs \<Rightarrow> cs | None \<Rightarrow> fl_clusters fl)
      in case file of
           None \<Rightarrow> values
         | Some f \<Rightarrow> filter (availableInCluster f) values)"

section \<open>Random choice\<close>

text \<open>
  \<open>random\<close> is the value \<^verbatim>\<open>Math.random()\<close> returns, a number in \<open>[0, 1)\<close>; the product and
  \<^verbatim>\<open>Math.floor\<close> are taken exactly.
\<close>

definition getRandomElement :: "real \<Rightarrow> 'a list \<Rightarrow> 'a option" where
  "getRandomElement random array =
     (if length array = 0 then None
      else (let randomIndex = \<lfloor>random * real (length array)\<rfloor>
            in js_index array randomIndex))"

text \<open>
  \<^verbatim>\<open>x || null\<close>: a cluster is an object and so truthy; only \<open>undefined\<close> becomes \<open>null\<close>. Both
  are \<open>None\<close>.
\<close>

definition randomAvailableCluster ::
    "real \<Rightarrow> FileList \<Rightarrow> File \<Rightarrow> ClusterEntity list option \<Rightarrow> ClusterEntity option" where
  "randomAvailableCluster random fl file clusters =
     (let availableClusters = getAvailableClusters fl (Some file) clusters
      in case getRandomElement random availableClusters of
           None \<Rightarrow> None
         | Some c \<Rightarrow> Some c)"

section \<open>Random elements\<close>

text \<open>
  \<^verbatim>\<open>getRandomElements\<close> copies its argument and mutates the copy, so the arrays live in a
  store: a list of arrays, an array reference being its position. \<^verbatim>\<open>[...array]\<close>
  allocates a new array at the end of the store. The local \<^verbatim>\<open>result\<close> is not shared and is
  a plain list; its elements are \<open>Some v\<close>, or \<open>None\<close> for \<open>undefined\<close>.
\<close>

type_synonym 'a heap = "'a list list"
type_synonym ref = nat

text \<open>
  \<^verbatim>\<open>xs.splice(start, 1)\<close>: a negative start counts from the end, a start beyond the end
  is the end; the result is the list of removed elements (at most one) and what remains.
\<close>

definition js_splice1 :: "'a list \<Rightarrow> int \<Rightarrow> 'a list \<times> 'a list" where
  "js_splice1 xs start =
     (let len = int (length xs);
          actualStart = nat (if start < 0 then max (len + start) 0 else min start len)
      in (take 1 (drop actualStart xs), take actualStart xs @ drop (Suc actualStart) xs))"

text \<open>
  The two loops \<^verbatim>\<open>for (let i = 0; i < count; i++)\<close>. \<open>rnd i\<close> is the value of the call of
  \<^verbatim>\<open>Math.random()\<close> in iteration \<open>i\<close>, a number in \<open>[0, 1)\<close>.
\<close>

function loop_duplicates ::
    "(nat \<Rightarrow> real) \<Rightarrow> 'a list \<Rightarrow> int \<Rightarrow> nat \<Rightarrow> 'a option list \<Rightarrow> 'a option list" where
  "loop_duplicates rnd array cnt i result =
     (if int i < cnt
      then (let randomIndex = \<lfloor>rnd i * real (length array)\<rfloor>
            in loop_duplicates rnd array cnt (Suc i) (result @ [js_index array randomIndex]))
      else result)"
  by pat_completeness auto
termination
  by (relation "measure (\<lambda>(rnd, array, cnt, i, result). nat (cnt - int i))") auto

function loop_unique ::
    "(nat \<Rightarrow> real) \<Rightarrow> 'a heap \<Rightarrow> ref \<Rightarrow> int \<Rightarrow> nat \<Rightarrow> 'a option list
       \<Rightarrow> 'a option list \<times> 'a heap" where
  "loop_unique rnd h tempArray cnt i result =
     (if int i < cnt
      then (let randomIndex = \<lfloor>rnd i * real (length (h ! tempArray))\<rfloor>;
                spliced = js_splice1 (h ! tempArray) randomIndex
            in loop_unique rnd (h[tempArray := snd spliced]) tempArray cnt (Suc i)
                 (result @ [js_index (fst spliced) 0]))
      else (result, h))"
  by pat_completeness auto
termination
  by (relation "measure (\<lambda>(rnd, h, tempArray, cnt, i, result). nat (cnt - int i))") auto

definition count_error :: error where
  "count_error = Error ''Count cannot be greater than the number of unique elements in the array when duplicates are not allowed.''"

text \<open>The parameter \<^verbatim>\<open>count\<close> is \<open>cnt\<close>. The result, or the exception thrown, and the store the call leaves.\<close>

definition getRandomElements ::
    "(nat \<Rightarrow> real) \<Rightarrow> 'a heap \<Rightarrow> ref \<Rightarrow> int \<Rightarrow> bool \<Rightarrow> (error + 'a option list) \<times> 'a heap" where
  "getRandomElements rnd h array cnt allowDuplicates =
     (if allowDuplicates then (Inr (loop_duplicates rnd (h ! array) cnt 0 []), h)
      else if cnt > int (length (h ! array)) then (Inl count_error, h)
      else (let tempArray = length h;
                h1 = h @ [h ! array];
                (result, h2) = loop_unique rnd h1 tempArray cnt 0 []
            in (Inr result, h2)))"

text \<open>Every call of \<^verbatim>\<open>Math.random()\<close> returns a number in \<open>[0, 1)\<close>.\<close>

definition unit_interval :: "(nat \<Rightarrow> real) \<Rightarrow> bool" where
  "unit_interval rnd = (\<forall>k. 0 \<le> rnd k \<and> rnd k < 1)"

section \<open>The file system, the hash functions and the clock\<close>

text \<open>
  What the functions below ask of the platform: \<^verbatim>\<open>fs.statSync(p).mtime.getTime()\<close>,
  \<^verbatim>\<open>fs.readFileSync(p)\<close>, \<^verbatim>\<open>crypto.createHash(algorithm)\<close> (the function from the bytes fed
  by \<^verbatim>\<open>update\<close> to the bytes of \<^verbatim>\<open>digest()\<close>), each of which can throw, and
  \<^verbatim>\<open>Date.now()\<close>. Bytes are characters; a buffer and the UTF-8 encoding of a string are
  both of type \<open>string\<close>.
\<close>

record platform =
  statSync_mtime :: "string \<Rightarrow> error + int"
  readFileSync :: "string \<Rightarrow> error + string"
  createHash :: "string \<Rightarrow> error + (string \<Rightarrow> string)"
  Date_now :: int

record FileInfo =
  info_hash :: string
  info_size :: int
  info_lastModified :: int

text \<open>\<^verbatim>\<open>digest('hex')\<close>: two lower-case hexadecimal digits for each byte.\<close>

definition hex_digit :: "nat \<Rightarrow> char" where
  "hex_digit d = ''0123456789abcdef'' ! d"

definition hex :: "string \<Rightarrow> string" where
  "hex bytes = concat (map (\<lambda>b. [hex_digit (of_char b div 16), hex_digit (of_char b mod 16)]) bytes)"

text \<open>The body of the \<^verbatim>\<open>try\<close> block of \<^verbatim>\<open>getFileInfoSync\<close>, and the function with its \<^verbatim>\<open>catch\<close>.\<close>

definition getFileInfoSync_try :: "platform \<Rightarrow> string \<Rightarrow> error + FileInfo" where
  "getFileInfoSync_try pf filePath =
     (case statSync_mtime pf filePath of
        Inl err \<Rightarrow> Inl err
      | Inr mtime \<Rightarrow>
          (case createHash pf ''sha256'' of
             Inl err \<Rightarrow> Inl err
           | Inr sha256 \<Rightarrow>
               (case readFileSync pf filePath of
                  Inl err \<Rightarrow> Inl err
                | Inr data \<Rightarrow>
                    Inr \<lparr>info_hash = hex (sha256 data), info_size = int (length data),
                         info_lastModified = mtime\<rparr>)))"

definition getFileInfoSync :: "platform \<Rightarrow> string \<Rightarrow> FileInfo" where
  "getFileInfoSync pf filePath =
     (case getFileInfoSync_try pf filePath of
        Inr info \<Rightarrow> info
      | Inl err \<Rightarrow>
          \<lparr>info_hash = ''0000000000000000000000000000000000000000'', info_size = 0,
           info_lastModified = 0\<rparr>)"

section \<open>Signing\<close>

text \<open>\<^verbatim>\<open>buffer.toString('base64')\<close>: the standard alphabet, padded with \<open>=\<close>.\<close>

definition base64_char :: "nat \<Rightarrow> char" where
  "base64_char n = ''ABCDEFGHIJKLMNOPQRSTUVWXYZabcdefghijklmnopqrstuvwxyz0123456789+/'' ! n"

fun base64 :: "string \<Rightarrow> string" where
  "base64 (a # b # c # rest) =
     (let n = of_char a * 65536 + of_char b * 256 + of_char c
      in base64_char (n div 262144) # base64_char (n div 4096 mod 64) #
         base64_char (n div 64 mod 64) # base64_char (n mod 64) # base64 rest)"
| "base64 [a, b] =
     (let n = of_char a * 65536 + of_char b * 256
      in [base64_char (n div 262144), base64_char (n div 4096 mod 64),
          base64_char (n div 64 mod 64), CHR ''=''])"
| "base64 [a] =
     (let n = of_char a * 65536
      in [base64_char (n div 262144), base64_char (n div 4096 mod 64), CHR ''='', CHR ''=''])"
| "base64 [] = []"

text \<open>
  \<^verbatim>\<open>s.replace(/x/g, y)\<close> for a one-character pattern, and \<^verbatim>\<open>s.replace(/x+$/, '')\<close>, which
  removes the longest run of \<open>x\<close> that ends the string.
\<close>

definition replace_all :: "char \<Rightarrow> char \<Rightarrow> string \<Rightarrow> string" where
  "replace_all x y s = map (\<lambda>c. if c = x then y else c) s"

definition remove_trailing :: "char \<Rightarrow> string \<Rightarrow> string" where
  "remove_trailing x s = rev (dropWhile (\<lambda>c. c = x) (rev s))"

definition toUrlSafeBase64String :: "string \<Rightarrow> string" where
  "toUrlSafeBase64String buffer =
     remove_trailing CHR ''=''
       (replace_all CHR ''/'' CHR ''_'' (replace_all CHR ''+'' CHR ''-'' (base64 buffer)))"

text \<open>\<^verbatim>\<open>n.toString(36)\<close> for an integer \<open>n\<close>.\<close>

definition digit36 :: "nat \<Rightarrow> char" where
  "digit36 d = ''0123456789abcdefghijklmnopqrstuvwxyz'' ! d"

function digits36 :: "nat \<Rightarrow> string" where
  "digits36 n = (if n < 36 then [digit36 n] else digits36 (n div 36) @ [digit36 (n mod 36)])"
  by pat_completeness auto
termination
  by (relation "measure (\<lambda>n. n)") auto

definition toString36 :: "int \<Rightarrow> string" where
  "toString36 n = (if n < 0 then CHR ''-'' # digits36 (nat (- n)) else digits36 (nat n))"

text \<open>\<^verbatim>\<open>null\<close> is \<open>None\<close>. The parameter \<^verbatim>\<open>path\<close> is \<open>p\<close>.\<close>

definition getSign :: "platform \<Rightarrow> string \<Rightarrow> string \<Rightarrow> string option" where
  "getSign pf p secret =
     (case createHash pf ''sha1'' of
        Inl err \<Rightarrow> None
      | Inr sha1 \<Rightarrow>
          (let timestamp = Date_now pf + 5 * 60 * 1000;
               e = toString36 timestamp;
               signBytes = sha1 (secret @ p @ e);
               sign = toUrlSafeBase64String signBytes
           in Some (''s='' @ sign @ ''&e='' @ e)))"

section \<open>The specification's wording\<close>

text \<open>
  The eligibility rule and the per-cluster listing as the specification words them, with
  a strict bound on the shard index.
\<close>

definition eligible_spec :: "File \<Rightarrow> ClusterEntity \<Rightarrow> bool" where
  "eligible_spec file c =
     (isOnline c \<and> \<not> isBanned c \<and>
      (case getShardIndex (path file) SHARD_COUNT of None \<Rightarrow> False | Some i \<Rightarrow> i < shards c) \<and>
      (truthy (url file) \<or> \<not> isProxyCluster c))"

definition listForCluster_spec :: "File list \<Rightarrow> ClusterEntity \<Rightarrow> File list" where
  "listForCluster_spec catalog c =
     filter (\<lambda>f. (case getShardIndex (path f) SHARD_COUNT of None \<Rightarrow> False | Some i \<Rightarrow> i < shards c) \<and>
                 \<not> (isProxyCluster c \<and> \<not> truthy (url f))) catalog"

text \<open>
  URL-safe base64 without padding as a format of its own: the alphabet with \<open>-\<close> and \<open>_\<close>,
  and no \<open>=\<close> written. And the reading of a base-36 numeral, the inverse of
  \<^verbatim>\<open>toString(36)\<close>.
\<close>

definition base64url_char :: "nat \<Rightarrow> char" where
  "base64url_char n = ''ABCDEFGHIJKLMNOPQRSTUVWXYZabcdefghijklmnopqrstuvwxyz0123456789-_'' ! n"

fun base64url :: "string \<Rightarrow> string" where
  "base64url (a # b # c # rest) =
     (let n = of_char a * 65536 + of_char b * 256 + of_char c
      in base64url_char (n div 262144) # base64url_char (n div 4096 mod 64) #
         base64url_char (n div 64 mod 64) # base64url_char (n mod 64) # base64url rest)"
| "base64url [a, b] =
     (let n = of_char a * 65536 + of_char b * 256
      in [base64url_char (n div 262144), base64url_char (n div 4096 mod 64),
          base64url_char (n div 64 mod 64)])"
| "base64url [a] =
     (let n = of_char a * 65536
      in [base64url_char (n div 262144), base64url_char (n div 4096 mod 64)])"
| "base64url [] = []"

text \<open>What the two replacements together make of one character.\<close>

definition url_replace :: "char \<Rightarrow> char" where
  "url_replace c =
     (if (if c = CHR ''+'' then CHR ''-'' else c) = CHR ''/'' then CHR ''_''
      else (if c = CHR ''+'' then CHR ''-'' else c))"

definition digit_value :: "char \<Rightarrow> nat" where
  "digit_value c = (if of_char c < (58::nat) then of_char c - 48 else of_char c - 87)"

definition value36 :: "string \<Rightarrow> nat" where
  "value36 s = foldl (\<lambda>v c. 36 * v + digit_value c) 0 s"

definition parse36 :: "string \<Rightarrow> int" where
  "parse36 s = (case s of [] \<Rightarrow> 0
                | c # cs \<Rightarrow> if c = CHR ''-'' then - int (value36 cs) else int (value36 s))"

section \<open>Example data\<close>

definition file_a :: File where
  "file_a = \<lparr>path = ''/files/a.txt'', hash = ''h1'', fsize = 10, lastModified = 1000, url = None\<rparr>"

definition file_rac :: File where
  "file_rac = \<lparr>path = ''/files/rac.txt'', hash = ''h2'', fsize = 20, lastModified = 2000, url = None\<rparr>"

definition cluster_all :: ClusterEntity where
  "cluster_all = \<lparr>clusterId = ''1'', shards = 1000, isOnline = True, isBanned = False,
     isProxyCluster = False\<rparr>"

definition cluster_zero :: ClusterEntity where
  "cluster_zero = \<lparr>clusterId = ''2'', shards = 0, isOnline = True, isBanned = False,
     isProxyCluster = False\<rparr>"

text \<open>The state \<^verbatim>\<open>new FileList(files, clusters)\<close> builds.\<close>

definition built :: "File list \<Rightarrow> ClusterEntity list \<Rightarrow> FileList" where
  "built files clusters =
     \<lparr>fl_files = files, fl_clusters = clusters,
      fl_shards = map (bucket SHARD_COUNT files) [0..<nat SHARD_COUNT]\<rparr>"

text \<open>
  A platform with one file, \<^verbatim>\<open>/data/a.txt\<close>, of content \<^verbatim>\<open>hi\<close> and modification time
  \<open>1000\<close>; its hash function is the constant function to the SHA-256 digest of \<^verbatim>\<open>hi\<close>.
\<close>

definition sha256_hi :: string where
  "sha256_hi =
     [CHR 0x8f, CHR 0x43, CHR 0x43, CHR 0x46, CHR 0x64, CHR 0x8f, CHR 0x6b, CHR 0x96,
      CHR 0xdf, CHR 0x89, CHR 0xdd, CHR 0xa9, CHR 0x01, CHR 0xc5, CHR 0x17, CHR 0x6b,
      CHR 0x10, CHR 0xa6, CHR 0xd8, CHR 0x39, CHR 0x61, CHR 0xdd, CHR 0x3c, CHR 0x1a,
      CHR 0xc8, CHR 0x8b, CHR 0x59, CHR 0xb2, CHR 0xdc, CHR 0x32, CHR 0x7a, CHR 0xa4]"

definition disk_platform :: platform where
  "disk_platform =
     \<lparr>statSync_mtime = (\<lambda>p. if p = ''/data/a.txt'' then Inr 1000 else Inl (SystemError ''ENOENT'')),
      readFileSync = (\<lambda>p. if p = ''/data/a.txt'' then Inr ''hi'' else Inl (SystemError ''ENOENT'')),
      createHash = (\<lambda>algorithm. Inr (\<lambda>data. sha256_hi)),
      Date_now = 0\<rparr>"

text \<open>
  A platform whose clock reads \<open>1700000000000\<close> and whose hash function is the constant
  function to the SHA-1 digest of \<^verbatim>\<open>secret/files/11.txtloywaajk\<close>; and one that has no
  hash function to give.
\<close>

definition sha1_example :: string where
  "sha1_example =
     [CHR 0x9a, CHR 0xa9, CHR 0x0f, CHR 0x88, CHR 0x18, CHR 0xf2, CHR 0x45, CHR 0xf5,
      CHR 0x19, CHR 0xfc, CHR 0xc5, CHR 0x1f, CHR 0x1b, CHR 0xa4, CHR 0x7b, CHR 0x36,
      CHR 0x49, CHR 0xfe, CHR 0x94, CHR 0x7b]"

definition signing_platform :: platform where
  "signing_platform =
     \<lparr>statSync_mtime = (\<lambda>p. Inl (SystemError ''ENOENT'')),
      readFileSync = (\<lambda>p. Inl (SystemError ''ENOENT'')),
      createHash = (\<lambda>algorithm. Inr (\<lambda>data. sha1_example)),
      Date_now = 1700000000000\<rparr>"

definition hashless_platform :: platform where
  "hashless_platform =
     \<lparr>statSync_mtime = (\<lambda>p. Inl (SystemError ''ENOENT'')),
      readFileSync = (\<lambda>p. Inl (SystemError ''ENOENT'')),
      createHash = (\<lambda>algorithm. Inl (SystemError ''Digest method not supported'')),
      Date_now = 1700000000000\<rparr>"

text \<open>The equations of the loops are unfolded by hand.\<close>

declare loop_duplicates.simps [simp del] loop_unique.simps [simp del] digits36.simps [simp del]

section \<open>The shard index\<close>

lemma crc32_unsigned_empty: "crc32_unsigned [] = 0"
  by (simp add: crc32_unsigned_def)

lemma getShardIndex_pos:
  assumes "0 < n"
  shows "getShardIndex p n = Some (\<bar>crc32_str p\<bar> mod n)"
proof -
  have "sgn \<bar>crc32_str p\<bar> * (\<bar>\<bar>crc32_str p\<bar>\<bar> mod \<bar>n\<bar>) = \<bar>crc32_str p\<bar> mod n"
  proof (cases "crc32_str p = 0")
    case True
    then show ?thesis by simp
  next
    case False
    then have "sgn \<bar>crc32_str p\<bar> = 1" by simp
    with assms show ?thesis by simp
  qed
  with assms show ?thesis
    by (simp add: getShardIndex_def js_rem_def)
qed

lemma getShardIndex_range:
  assumes "0 < n" and "getShardIndex p n = Some r"
  shows "0 \<le> r \<and> r < n"
  using assms by (auto simp: getShardIndex_pos)

text \<open>The checksums and shard indices of the example paths.\<close>

lemma crc_a: "crc32_str ''/files/a.txt'' = - 1978904390"
  by (simp add: crc32_str_def crc32_unsigned_def crc_byte_def crc_bit_def)

lemma crc_rac: "crc32_str ''/files/rac.txt'' = 277409000"
  by (simp add: crc32_str_def crc32_unsigned_def crc_byte_def crc_bit_def)

lemma crc_empty: "crc32_str [] = 0"
  by (simp add: crc32_str_def crc32_unsigned_def)

lemma shard_file_a: "getShardIndex (path file_a) SHARD_COUNT = Some 390"
  by (simp add: getShardIndex_pos SHARD_COUNT_def file_a_def crc_a)

lemma shard_file_rac: "getShardIndex (path file_rac) SHARD_COUNT = Some 0"
  by (simp add: getShardIndex_pos SHARD_COUNT_def file_rac_def crc_rac)

text \<open>
  C4. For every string \<open>p\<close> and every positive number of shards \<open>N\<close>, \<open>getShardIndex p N\<close>
  is a number (not \<open>NaN\<close>) in \<open>[0, N)\<close>, and it is the absolute value of the signed CRC-32
  checksum of \<open>p\<close> reduced modulo \<open>N\<close>. The result is a function of the two arguments only:
  the source reads no state.
\<close>

theorem getShardIndex_spec:
  assumes "0 < N"
  shows "\<exists>r. getShardIndex p N = Some r \<and> 0 \<le> r \<and> r < N \<and> r = \<bar>crc32_str p\<bar> mod N"
  using assms by (simp add: getShardIndex_pos)

theorem getShardIndex_spec_witness:
  "(0::int) < 1000 \<and> getShardIndex ''/files/test.txt'' 1000 = Some 877"
proof -
  have crc: "crc32_str ''/files/test.txt'' = 1776359877"
    by (simp add: crc32_str_def crc32_unsigned_def crc_byte_def crc_bit_def)
  from getShardIndex_spec [of 1000 "''/files/test.txt''"]
  show ?thesis by (simp add: crc)
qed

section \<open>The shard partition\<close>

lemma push_objects_buckets:
  assumes "0 < n" and "length shs = nat n"
  shows "push_objects n objs shs =
           Inr (map (\<lambda>i. shs ! i @ bucket n objs i) [0..<nat n])"
  using assms(2)
proof (induction objs arbitrary: shs)
  case Nil
  have "map (\<lambda>i. shs ! i) [0..<length shs] = shs"
    by (rule map_nth)
  with Nil show ?case
    by (simp add: bucket_def)
next
  case (Cons obj objs)
  let ?r = "\<bar>crc32_str (path obj)\<bar> mod n"
  let ?shs = "shs[nat ?r := shs ! nat ?r @ [obj]]"
  have idx: "getShardIndex (path obj) n = Some ?r"
    using assms(1) by (rule getShardIndex_pos)
  have r: "0 \<le> ?r" "?r < n"
    using assms(1) by simp_all
  then have rlen: "nat ?r < length shs"
    using Cons.prems by simp
  have "push_objects n (obj # objs) shs = push_objects n objs ?shs"
    using idx r Cons.prems by simp
  also have "\<dots> = Inr (map (\<lambda>i. ?shs ! i @ bucket n objs i) [0..<nat n])"
    using Cons.prems by (intro Cons.IH) simp
  also have "map (\<lambda>i. ?shs ! i @ bucket n objs i) [0..<nat n] =
             map (\<lambda>i. shs ! i @ bucket n (obj # objs) i) [0..<nat n]"
  proof (rule map_cong [OF refl])
    fix i assume "i \<in> set [0..<nat n]"
    then have i: "i < length shs" using Cons.prems by simp
    show "?shs ! i @ bucket n objs i = shs ! i @ bucket n (obj # objs) i"
    proof (cases "i = nat ?r")
      case True
      then have "int i = ?r" using r by simp
      then show ?thesis using True rlen idx by (simp add: bucket_def)
    next
      case False
      then have "int i \<noteq> ?r" using r by auto
      then show ?thesis using False idx by (simp add: bucket_def)
    qed
  qed
  finally show ?case .
qed

lemma splitIntoShards_buckets:
  assumes "0 < n"
  shows "splitIntoShards objs n = Inr (map (bucket n objs) [0..<nat n])"
  using push_objects_buckets [OF assms, of "replicate (nat n) []" objs]
  by (simp add: splitIntoShards_def cong: map_cong)

lemma mset_bucket:
  "mset (bucket n xs i) = filter_mset (\<lambda>f. getShardIndex (path f) n = Some (int i)) (mset xs)"
  by (simp add: bucket_def)

lemma mset_concat_buckets:
  assumes "distinct js"
  shows "mset (concat (map (bucket n xs) js)) =
           filter_mset (\<lambda>f. \<exists>j\<in>set js. getShardIndex (path f) n = Some (int j)) (mset xs)"
  using assms
proof (induction js)
  case Nil
  then show ?case by simp
next
  case (Cons j js)
  then have "j \<notin> set js" and "distinct js" by simp_all
  then have "mset (concat (map (bucket n xs) (j # js))) =
        filter_mset (\<lambda>f. getShardIndex (path f) n = Some (int j)) (mset xs) +
        filter_mset (\<lambda>f. \<exists>i\<in>set js. getShardIndex (path f) n = Some (int i)) (mset xs)"
    using Cons.IH by (simp add: mset_bucket)
  also have "\<dots> = filter_mset (\<lambda>f. \<exists>i\<in>set (j # js). getShardIndex (path f) n = Some (int i)) (mset xs)"
    using \<open>j \<notin> set js\<close> by (intro multiset_eqI) auto
  finally show ?case .
qed

lemma in_bucket_iff:
  "f \<in> set (bucket n xs i) \<longleftrightarrow> f \<in> set xs \<and> getShardIndex (path f) n = Some (int i)"
  by (simp add: bucket_def)

lemma SHARD_COUNT_pos: "0 < SHARD_COUNT"
  by (simp add: SHARD_COUNT_def)

lemma notifyUpdateShards_buckets:
  "notifyUpdateShards fl =
     Inr (fl\<lparr>fl_shards := map (bucket SHARD_COUNT (fl_files fl)) [0..<nat SHARD_COUNT]\<rparr>)"
  by (simp add: notifyUpdateShards_def splitIntoShards_buckets [OF SHARD_COUNT_pos])

text \<open>
  C3. For every list of file records, \<open>splitIntoShards\<close> with \<open>SHARD_COUNT\<close> returns
  (it never throws) exactly \<open>SHARD_COUNT\<close> buckets; the buckets are pairwise disjoint, their
  union is the set of input records, and even their concatenation is a permutation of the
  input; bucket \<open>i\<close> holds, in input order, exactly the records whose
  \<open>getShardIndex (path obj) SHARD_COUNT\<close> is \<open>i\<close>, a function of the path alone. Replacing
  the files of a \<open>FileList\<close> by the same list a second time leaves the state, and so the
  buckets, as the first replacement made them.
\<close>

theorem splitIntoShards_partition:
  "\<exists>shs. splitIntoShards objs SHARD_COUNT = Inr shs \<and>
     int (length shs) = SHARD_COUNT \<and>
     (\<forall>i<length shs. \<forall>j<length shs. i \<noteq> j \<longrightarrow> set (shs ! i) \<inter> set (shs ! j) = {}) \<and>
     (\<Union>i<length shs. set (shs ! i)) = set objs \<and>
     mset (concat shs) = mset objs \<and>
     (\<forall>i<length shs. shs ! i =
        filter (\<lambda>obj. getShardIndex (path obj) SHARD_COUNT = Some (int i)) objs) \<and>
     (\<forall>fl. \<exists>fl'. set_files fl objs = Inr fl' \<and> fl_shards fl' = shs \<and>
        set_files fl' objs = Inr fl')"
proof -
  let ?N = "nat SHARD_COUNT"
  let ?shs = "map (bucket SHARD_COUNT objs) [0..<?N]"
  have split: "splitIntoShards objs SHARD_COUNT = Inr ?shs"
    by (rule splitIntoShards_buckets [OF SHARD_COUNT_pos])
  have len: "int (length ?shs) = SHARD_COUNT"
    using SHARD_COUNT_pos by simp
  have nth: "?shs ! i = bucket SHARD_COUNT objs i" if "i < length ?shs" for i
    using that by simp
  have disj: "set (?shs ! i) \<inter> set (?shs ! j) = {}"
    if "i < length ?shs" "j < length ?shs" "i \<noteq> j" for i j
    using that by (auto simp: in_bucket_iff)
  have union: "(\<Union>i<length ?shs. set (?shs ! i)) = set objs"
  proof (intro equalityI subsetI)
    fix f assume "f \<in> (\<Union>i<length ?shs. set (?shs ! i))"
    then show "f \<in> set objs" by (auto simp: in_bucket_iff)
  next
    fix f assume f: "f \<in> set objs"
    obtain r where r: "getShardIndex (path f) SHARD_COUNT = Some r" "0 \<le> r" "r < SHARD_COUNT"
      using getShardIndex_pos [OF SHARD_COUNT_pos, of "path f"] SHARD_COUNT_pos by simp
    then have "nat r < length ?shs" and "f \<in> set (?shs ! nat r)"
      using f by (simp_all add: in_bucket_iff)
    then show "f \<in> (\<Union>i<length ?shs. set (?shs ! i))" by blast
  qed
  have "mset (concat ?shs) =
          filter_mset (\<lambda>f. \<exists>j\<in>set [0..<?N]. getShardIndex (path f) SHARD_COUNT = Some (int j)) (mset objs)"
    by (rule mset_concat_buckets) simp
  also have "\<dots> = mset objs"
  proof -
    have "\<exists>j\<in>set [0..<?N]. getShardIndex (path f) SHARD_COUNT = Some (int j)" for f
    proof -
    obtain r where r: "getShardIndex (path f) SHARD_COUNT = Some r" "0 \<le> r" "r < SHARD_COUNT"
      using getShardIndex_pos [OF SHARD_COUNT_pos, of "path f"] SHARD_COUNT_pos by simp
    then have "nat r \<in> set [0..<?N]" and "getShardIndex (path f) SHARD_COUNT = Some (int (nat r))"
      by simp_all
    then show ?thesis
      by blast
    qed
    then have "filter_mset (\<lambda>f. \<exists>j\<in>set [0..<?N].
                   getShardIndex (path f) SHARD_COUNT = Some (int j)) (mset objs) =
               filter_mset (\<lambda>f. True) (mset objs)"
      by (intro filter_mset_cong refl) blast
    then show ?thesis by (simp only: filter_mset_True)
  qed
  finally have perm: "mset (concat ?shs) = mset objs" .
  have content: "?shs ! i = filter (\<lambda>obj. getShardIndex (path obj) SHARD_COUNT = Some (int i)) objs"
    if "i < length ?shs" for i
    using that by (simp add: bucket_def)
  have rebuild: "\<exists>fl'. set_files fl objs = Inr fl' \<and> fl_shards fl' = ?shs \<and> set_files fl' objs = Inr fl'"
    for fl
    by (simp add: set_files_def notifyUpdateShards_buckets)
  from split len disj union perm content rebuild show ?thesis
    by blast
qed


theorem splitIntoShards_partition_witness:
  "\<exists>shs. splitIntoShards [file_a, file_rac] SHARD_COUNT = Inr shs \<and> length shs = 1000 \<and>
     shs ! 390 = [file_a] \<and> shs ! 0 = [file_rac] \<and> shs ! 1 = [] \<and>
     set (shs ! 0) \<inter> set (shs ! 390) = {}"
proof -
  from splitIntoShards_partition [of "[file_a, file_rac]"]
  obtain shs where split: "splitIntoShards [file_a, file_rac] SHARD_COUNT = Inr shs"
    and len: "int (length shs) = SHARD_COUNT"
    and disj: "\<forall>i<length shs. \<forall>j<length shs. i \<noteq> j \<longrightarrow> set (shs ! i) \<inter> set (shs ! j) = {}"
    and content: "\<forall>i<length shs. shs ! i =
        filter (\<lambda>obj. getShardIndex (path obj) SHARD_COUNT = Some (int i)) [file_a, file_rac]"
    by (elim exE conjE)
  from len have l: "length shs = 1000"
    by (simp add: SHARD_COUNT_def)
  from content have c: "shs ! i =
        filter (\<lambda>obj. getShardIndex (path obj) SHARD_COUNT = Some (int i)) [file_a, file_rac]"
    if "i < length shs" for i
    using that by blast
  from disj have d: "set (shs ! i) \<inter> set (shs ! j) = {}"
    if "i < length shs" "j < length shs" "i \<noteq> j" for i j
    using that by blast
  have "shs ! 390 = [file_a]"
    using c [of 390] l by (simp add: shard_file_a shard_file_rac)
  moreover have "shs ! 0 = [file_rac]"
    using c [of 0] l by (simp add: shard_file_a shard_file_rac)
  moreover have "shs ! 1 = []"
    using c [of 1] l by (simp add: shard_file_a shard_file_rac)
  moreover have "set (shs ! 0) \<inter> set (shs ! 390) = {}"
    using d [of 0 390] l by simp
  ultimately show ?thesis using split l by (intro exI [of _ shs] conjI)
qed

section \<open>States of a file list\<close>

lemma in_sync_shards:
  assumes "in_sync fl"
  shows "fl_shards fl = map (bucket SHARD_COUNT (fl_files fl)) [0..<nat SHARD_COUNT]"
  using assms by (simp add: in_sync_def splitIntoShards_buckets [OF SHARD_COUNT_pos])

lemma in_sync_built: "in_sync (built files clusters)"
  by (simp add: in_sync_def built_def splitIntoShards_buckets [OF SHARD_COUNT_pos])

lemma new_FileList_built: "new_FileList (Some files) (Some clusters) = Inr (built files clusters)"
  by (simp add: new_FileList_def notifyUpdateShards_buckets built_def)

lemma new_FileList_in_sync: "\<exists>fl. new_FileList files clusters = Inr fl \<and> in_sync fl"
  by (simp add: new_FileList_def notifyUpdateShards_buckets in_sync_def
      splitIntoShards_buckets [OF SHARD_COUNT_pos])

lemma set_files_in_sync: "\<exists>fl'. set_files fl files = Inr fl' \<and> in_sync fl'"
  by (simp add: set_files_def notifyUpdateShards_buckets in_sync_def
      splitIntoShards_buckets [OF SHARD_COUNT_pos])

lemma set_clusters_in_sync: "in_sync fl \<Longrightarrow> in_sync (set_clusters fl clusters)"
  by (simp add: set_clusters_def in_sync_def)

section \<open>Eligible clusters\<close>

lemma shard_index_total:
  "\<exists>i. getShardIndex p SHARD_COUNT = Some i \<and> 0 \<le> i \<and> i < SHARD_COUNT"
  using getShardIndex_pos [OF SHARD_COUNT_pos, of p] SHARD_COUNT_pos by simp

lemma availableInCluster_iff:
  "availableInCluster f c \<longleftrightarrow>
     (\<exists>i. getShardIndex (path f) SHARD_COUNT = Some i \<and> i \<le> shards c) \<and>
     (truthy (url f) \<or> \<not> isProxyCluster c)"
  using shard_index_total [of "path f"]
  by (auto simp: availableInCluster_def)

lemma getAvailableClusters_filter:
  "getAvailableClusters fl (Some f) clusters =
     filter (\<lambda>c. isOnline c \<and> \<not> isBanned c \<and>
                 (\<exists>i. getShardIndex (path f) SHARD_COUNT = Some i \<and> i \<le> shards c) \<and>
                 (truthy (url f) \<or> \<not> isProxyCluster c))
       (case clusters of Some cs \<Rightarrow> cs | None \<Rightarrow> fl_clusters fl)"
  by (simp add: getAvailableClusters_def availableInCluster_iff conj_commute conj_left_commute
      cong: conj_cong)

text \<open>
  C1 (amended). For every file and every cluster pool (the given one, or the registered
  clusters when none is given), \<open>getAvailableClusters\<close> returns, in pool order, exactly the
  clusters that are online, not banned, whose \<open>shards\<close> is at least the shard index of the
  file's path (the bound is inclusive), and that are not proxy clusters unless the file has
  a non-empty \<open>url\<close>. A cluster with \<open>shards = SHARD_COUNT\<close> is eligible for every file
  subject only to the proxy rule; one with \<open>shards = 0\<close> is eligible exactly for the files of
  shard index 0; one with negative \<open>shards\<close> is eligible for no file.
\<close>

theorem getAvailableClusters_eligible:
  fixes fl :: FileList and f :: File and clusters :: "ClusterEntity list option"
  defines "pool \<equiv> (case clusters of Some cs \<Rightarrow> cs | None \<Rightarrow> fl_clusters fl)"
  defines "proxy_ok \<equiv> (\<lambda>c. truthy (url f) \<or> \<not> isProxyCluster c)"
  shows "getAvailableClusters fl (Some f) clusters =
           filter (\<lambda>c. isOnline c \<and> \<not> isBanned c \<and>
                       (\<exists>i. getShardIndex (path f) SHARD_COUNT = Some i \<and> i \<le> shards c) \<and>
                       proxy_ok c) pool \<and>
         (\<forall>c. shards c = SHARD_COUNT \<longrightarrow>
            (c \<in> set (getAvailableClusters fl (Some f) clusters) \<longleftrightarrow>
               c \<in> set pool \<and> isOnline c \<and> \<not> isBanned c \<and> proxy_ok c)) \<and>
         (\<forall>c. shards c = 0 \<longrightarrow>
            (c \<in> set (getAvailableClusters fl (Some f) clusters) \<longleftrightarrow>
               c \<in> set pool \<and> isOnline c \<and> \<not> isBanned c \<and>
               getShardIndex (path f) SHARD_COUNT = Some 0 \<and> proxy_ok c)) \<and>
         (\<forall>c. shards c < 0 \<longrightarrow> c \<notin> set (getAvailableClusters fl (Some f) clusters))"
proof -
  obtain i where i: "getShardIndex (path f) SHARD_COUNT = Some i" "0 \<le> i" "i < SHARD_COUNT"
    using shard_index_total [of "path f"] by blast
  have eq: "getAvailableClusters fl (Some f) clusters =
           filter (\<lambda>c. isOnline c \<and> \<not> isBanned c \<and>
                       (\<exists>i. getShardIndex (path f) SHARD_COUNT = Some i \<and> i \<le> shards c) \<and>
                       proxy_ok c) pool"
    unfolding pool_def proxy_ok_def by (rule getAvailableClusters_filter)
  have mem: "c \<in> set (getAvailableClusters fl (Some f) clusters) \<longleftrightarrow>
      c \<in> set pool \<and> isOnline c \<and> \<not> isBanned c \<and> i \<le> shards c \<and> proxy_ok c" for c
    unfolding eq using i by auto
  have full: "c \<in> set (getAvailableClusters fl (Some f) clusters) \<longleftrightarrow>
      c \<in> set pool \<and> isOnline c \<and> \<not> isBanned c \<and> proxy_ok c" if "shards c = SHARD_COUNT" for c
    unfolding mem using i that by auto
  have zero: "c \<in> set (getAvailableClusters fl (Some f) clusters) \<longleftrightarrow>
      c \<in> set pool \<and> isOnline c \<and> \<not> isBanned c \<and>
      getShardIndex (path f) SHARD_COUNT = Some 0 \<and> proxy_ok c" if "shards c = 0" for c
    unfolding mem using i that by auto
  have neg: "c \<notin> set (getAvailableClusters fl (Some f) clusters)" if "shards c < 0" for c
    unfolding mem using i that by auto
  from eq full zero neg show ?thesis
    by (intro conjI allI impI)
qed

text \<open>The scenario of the specification, with a second cluster of capacity 0.\<close>

theorem getAvailableClusters_eligible_witness:
  "getAvailableClusters (built [file_a] [cluster_all, cluster_zero]) (Some file_a) None =
     [cluster_all]"
proof -
  have "getAvailableClusters (built [file_a] [cluster_all, cluster_zero]) (Some file_a) None =
     filter (\<lambda>c. isOnline c \<and> \<not> isBanned c \<and>
                 (\<exists>i. getShardIndex (path file_a) SHARD_COUNT = Some i \<and> i \<le> shards c) \<and>
                 (truthy (url file_a) \<or> \<not> isProxyCluster c))
       (case None of Some cs \<Rightarrow> cs | None \<Rightarrow> fl_clusters (built [file_a] [cluster_all, cluster_zero]))"
    using getAvailableClusters_eligible
      [of "built [file_a] [cluster_all, cluster_zero]" file_a None]
    by (elim conjE)
  then show ?thesis
    by (simp add: built_def shard_file_a cluster_all_def cluster_zero_def)
qed

text \<open>
  With the strict bound of the specification a cluster of capacity 0 would be eligible for
  no file; the source returns it for a file of shard index 0.
\<close>

theorem getAvailableClusters_strict_counterexample:
  "getAvailableClusters (built [file_rac] [cluster_zero]) (Some file_rac) None = [cluster_zero] \<and>
   shards cluster_zero = 0 \<and>
   filter (eligible_spec file_rac) [cluster_zero] = []"
  by (simp add: getAvailableClusters_filter built_def shard_file_rac cluster_zero_def
      eligible_spec_def)

section \<open>Files of a cluster\<close>

lemma filter_upt_le:
  "filter (\<lambda>i. int i \<le> s) [0..<n] = [0..<min n (nat (s + 1))]"
proof (induction n)
  case 0
  show ?case by simp
next
  case (Suc n)
  show ?case
  proof (cases "int n \<le> s")
    case True
    then have "min n (nat (s + 1)) = n" "min (Suc n) (nat (s + 1)) = Suc n"
      by simp_all
    with Suc True show ?thesis by simp
  next
    case False
    then have "min n (nat (s + 1)) = nat (s + 1)" "min (Suc n) (nat (s + 1)) = nat (s + 1)"
      by simp_all
    with Suc False show ?thesis by simp
  qed
qed

lemma enumerate_map_upt:
  "enumerate 0 (map g [0..<n]) = map (\<lambda>i. (i, g i)) [0..<n]"
  by (simp add: enumerate_eq_zip zip_map2 zip_same_conv_map)

lemma select_enumerated:
  "map snd (filter (\<lambda>(index, _). P index) (enumerate 0 (map g [0..<n]))) =
     map g (filter P [0..<n])"
  by (simp add: enumerate_map_upt filter_map comp_def)

lemma getAvailableFiles_buckets:
  assumes "in_sync fl"
  shows "getAvailableFiles fl c =
     filter (\<lambda>f. truthy (url f) \<or> \<not> isProxyCluster c)
       (concat (map (bucket SHARD_COUNT (fl_files fl))
          [0..<min (nat SHARD_COUNT) (nat (shards c + 1))]))"
proof -
  have "map snd (filter (\<lambda>(index, _). int index \<le> shards c) (enumerate 0 (fl_shards fl))) =
        map (bucket SHARD_COUNT (fl_files fl)) (filter (\<lambda>i. int i \<le> shards c) [0..<nat SHARD_COUNT])"
    unfolding in_sync_shards [OF assms] by (rule select_enumerated)
  then show ?thesis
    by (simp add: getAvailableFiles_def filter_upt_le)
qed

lemma getAvailableFiles_mset:
  assumes "in_sync fl"
  shows "mset (getAvailableFiles fl c) =
     mset (filter (\<lambda>f. (\<exists>i. getShardIndex (path f) SHARD_COUNT = Some i \<and> i \<le> shards c) \<and>
                        (truthy (url f) \<or> \<not> isProxyCluster c)) (fl_files fl))"
proof -
  let ?js = "[0..<min (nat SHARD_COUNT) (nat (shards c + 1))]"
  have sel: "(\<exists>j\<in>set ?js. getShardIndex (path f) SHARD_COUNT = Some (int j)) \<longleftrightarrow>
             (\<exists>i. getShardIndex (path f) SHARD_COUNT = Some i \<and> i \<le> shards c)" for f
  proof -
    obtain r where r: "getShardIndex (path f) SHARD_COUNT = Some r" "0 \<le> r" "r < SHARD_COUNT"
      using shard_index_total [of "path f"] by blast
    have "(\<exists>j\<in>set ?js. r = int j) \<longleftrightarrow> r \<le> shards c"
    proof
      assume "\<exists>j\<in>set ?js. r = int j"
      then show "r \<le> shards c" by auto
    next
      assume "r \<le> shards c"
      then have "nat r \<in> set ?js" "r = int (nat r)" using r by simp_all
      then show "\<exists>j\<in>set ?js. r = int j" by blast
    qed
    then show ?thesis using r by simp
  qed
  have "mset (getAvailableFiles fl c) =
        filter_mset (\<lambda>f. truthy (url f) \<or> \<not> isProxyCluster c)
          (mset (concat (map (bucket SHARD_COUNT (fl_files fl)) ?js)))"
    by (simp add: getAvailableFiles_buckets [OF assms])
  also have "mset (concat (map (bucket SHARD_COUNT (fl_files fl)) ?js)) =
        filter_mset (\<lambda>f. \<exists>j\<in>set ?js. getShardIndex (path f) SHARD_COUNT = Some (int j))
          (mset (fl_files fl))"
    by (rule mset_concat_buckets) simp
  also have "\<dots> = filter_mset (\<lambda>f. \<exists>i. getShardIndex (path f) SHARD_COUNT = Some i \<and> i \<le> shards c)
          (mset (fl_files fl))"
    by (intro filter_mset_cong refl sel)
  finally show ?thesis
    by (simp add: filter_filter_mset)
qed

text \<open>
  C2 (amended). In a state whose partition is that of its files, \<open>getAvailableFiles\<close>
  returns, each as often as the catalog holds it, exactly the records whose shard index is
  at most \<open>shards\<close> of the cluster (the bound is inclusive), except that for a proxy cluster
  the records without a non-empty \<open>url\<close> are left out; for a cluster that is not a proxy no
  record is left out for lacking a \<open>url\<close>.
\<close>

theorem getAvailableFiles_listing:
  assumes "in_sync fl"
  shows "mset (getAvailableFiles fl c) =
           mset (filter (\<lambda>f. (\<exists>i. getShardIndex (path f) SHARD_COUNT = Some i \<and> i \<le> shards c) \<and>
                              (truthy (url f) \<or> \<not> isProxyCluster c)) (fl_files fl)) \<and>
         (isProxyCluster c \<longrightarrow> mset (getAvailableFiles fl c) =
           mset (filter (\<lambda>f. (\<exists>i. getShardIndex (path f) SHARD_COUNT = Some i \<and> i \<le> shards c) \<and>
                              truthy (url f)) (fl_files fl))) \<and>
         (\<not> isProxyCluster c \<longrightarrow> mset (getAvailableFiles fl c) =
           mset (filter (\<lambda>f. \<exists>i. getShardIndex (path f) SHARD_COUNT = Some i \<and> i \<le> shards c)
                   (fl_files fl)))"
  using getAvailableFiles_mset [OF assms, of c] by simp

text \<open>A catalog of two records, of shard indices 390 and 0, and a cluster of capacity 0.\<close>

theorem getAvailableFiles_listing_witness:
  "in_sync (built [file_a, file_rac] []) \<and>
   mset (getAvailableFiles (built [file_a, file_rac] []) cluster_zero) = {#file_rac#}"
proof -
  have s: "in_sync (built [file_a, file_rac] [])"
    by (rule in_sync_built)
  from getAvailableFiles_listing [OF s, of cluster_zero]
  have "mset (getAvailableFiles (built [file_a, file_rac] []) cluster_zero) =
        mset (filter (\<lambda>f. (\<exists>i. getShardIndex (path f) SHARD_COUNT = Some i \<and> i \<le> shards cluster_zero) \<and>
                              (truthy (url f) \<or> \<not> isProxyCluster cluster_zero))
           (fl_files (built [file_a, file_rac] [])))"
    by (elim conjE)
  then have "mset (getAvailableFiles (built [file_a, file_rac] []) cluster_zero) = {#file_rac#}"
    by (simp add: built_def shard_file_a shard_file_rac cluster_zero_def)
  with s show ?thesis by (intro conjI)
qed

text \<open>
  With the strict bound of the specification a cluster of capacity 0 would be listed no
  record; the source lists the record of shard index 0.
\<close>

theorem getAvailableFiles_strict_counterexample:
  "new_FileList (Some [file_rac]) (Some []) = Inr (built [file_rac] []) \<and>
   getAvailableFiles (built [file_rac] []) cluster_zero = [file_rac] \<and>
   shards cluster_zero = 0 \<and>
   listForCluster_spec [file_rac] cluster_zero = []"
proof -
  have "getAvailableFiles (built [file_rac] []) cluster_zero = [file_rac]"
    unfolding getAvailableFiles_buckets [OF in_sync_built]
    by (simp add: SHARD_COUNT_def bucket_def shard_file_rac [unfolded SHARD_COUNT_def]
        cluster_zero_def built_def)
  moreover have "listForCluster_spec [file_rac] cluster_zero = []"
    by (simp add: listForCluster_spec_def shard_file_rac cluster_zero_def)
  moreover have "shards cluster_zero = 0"
    by (simp add: cluster_zero_def)
  ultimately show ?thesis
    using new_FileList_built [of "[file_rac]" "[]"] by (intro conjI)
qed

section \<open>Lookup by hash\<close>

lemma getFiles_path_in_sync:
  assumes "in_sync fl"
  shows "getFiles_path fl p = Inr (filter (\<lambda>file. path file = p) (fl_files fl))"
proof -
  obtain r where r: "getShardIndex p SHARD_COUNT = Some r" "0 \<le> r" "r < SHARD_COUNT"
    using shard_index_total [of p] by blast
  have len: "int (length (fl_shards fl)) = SHARD_COUNT"
    using SHARD_COUNT_pos by (simp add: in_sync_shards [OF assms])
  have "fl_shards fl ! nat r = bucket SHARD_COUNT (fl_files fl) (nat r)"
    using r by (simp add: in_sync_shards [OF assms])
  then have "filter (\<lambda>file. path file = p) (fl_shards fl ! nat r) =
        filter (\<lambda>file. getShardIndex (path file) SHARD_COUNT = Some r \<and> path file = p) (fl_files fl)"
    using r by (simp add: bucket_def)
  also have "\<dots> = filter (\<lambda>file. path file = p) (fl_files fl)"
    using r by (intro filter_cong refl) auto
  finally show ?thesis
    using r len by (simp add: getFiles_path_def)
qed

lemma path_of_hash_find:
  "path_of_hash fl h =
     (case find (\<lambda>file. hash file = h) (fl_files fl) of None \<Rightarrow> [] | Some file \<Rightarrow> path file)"
  by (simp add: path_of_hash_def split: option.splits)

lemma getFiles_hash_in_sync:
  assumes "in_sync fl"
  shows "getFiles fl ''hash'' h =
     Inr (filter (\<lambda>file. path file = path_of_hash fl h) (fl_files fl))"
  by (simp add: getFiles_def getFiles_path_in_sync [OF assms])

lemma find_first_index:
  assumes "i < length xs" and "P (xs ! i)" and "\<forall>j<i. \<not> P (xs ! j)"
  shows "find P xs = Some (xs ! i)"
  using assms by (simp only: find_Some_iff) blast

text \<open>
  C9. In a state whose partition is that of its files and whose records all have a
  non-empty path (the invariant of a file record), for every hash value \<open>h\<close>: when no
  record of the catalog has hash \<open>h\<close>, \<open>getFiles\<close> with type \<open>''hash''\<close> returns the empty
  list; when some record has, it returns every record whose path equals the path of the
  first record, in catalog order, with hash \<open>h\<close> (the record at the least index with that
  hash, which is what \<open>find\<close> returns): it matches on that record's path, not on the
  hash. It never throws.
\<close>

theorem getFiles_hash_spec:
  assumes "in_sync fl" and "\<forall>file\<in>set (fl_files fl). path file \<noteq> []"
  shows "((\<forall>file\<in>set (fl_files fl). hash file \<noteq> h) \<longrightarrow>
            getFiles fl ''hash'' h = Inr []) \<and>
         (\<forall>i<length (fl_files fl).
            hash (fl_files fl ! i) = h \<and> (\<forall>j<i. hash (fl_files fl ! j) \<noteq> h) \<longrightarrow>
            getFiles fl ''hash'' h =
              Inr (filter (\<lambda>file. path file = path (fl_files fl ! i)) (fl_files fl))) \<and>
         (\<forall>first. find (\<lambda>file. hash file = h) (fl_files fl) = Some first \<longrightarrow>
            getFiles fl ''hash'' h =
              Inr (filter (\<lambda>file. path file = path first) (fl_files fl))) \<and>
         ((\<exists>file\<in>set (fl_files fl). hash file = h) \<longrightarrow>
            (\<exists>first. find (\<lambda>file. hash file = h) (fl_files fl) = Some first))"
proof (intro conjI allI impI)
  assume none: "\<forall>file\<in>set (fl_files fl). hash file \<noteq> h"
  then have "find (\<lambda>file. hash file = h) (fl_files fl) = None"
    by (auto simp: find_None_iff)
  moreover have "filter (\<lambda>file. path file = []) (fl_files fl) = []"
    using assms(2) by (simp add: filter_empty_conv)
  ultimately show "getFiles fl ''hash'' h = Inr []"
    by (simp add: getFiles_hash_in_sync [OF assms(1)] path_of_hash_find)
next
  fix i
  assume i: "i < length (fl_files fl)"
    and first: "hash (fl_files fl ! i) = h \<and> (\<forall>j<i. hash (fl_files fl ! j) \<noteq> h)"
  from first have "hash (fl_files fl ! i) = h" and "\<forall>j<i. \<not> hash (fl_files fl ! j) = h"
    by simp_all
  with i have "find (\<lambda>file. hash file = h) (fl_files fl) = Some (fl_files fl ! i)"
    by (rule find_first_index)
  then show "getFiles fl ''hash'' h =
              Inr (filter (\<lambda>file. path file = path (fl_files fl ! i)) (fl_files fl))"
    by (simp add: getFiles_hash_in_sync [OF assms(1)] path_of_hash_find)
next
  fix first
  assume "find (\<lambda>file. hash file = h) (fl_files fl) = Some first"
  then show "getFiles fl ''hash'' h =
              Inr (filter (\<lambda>file. path file = path first) (fl_files fl))"
    by (simp add: getFiles_hash_in_sync [OF assms(1)] path_of_hash_find)
next
  assume "\<exists>file\<in>set (fl_files fl). hash file = h"
  then have "find (\<lambda>file. hash file = h) (fl_files fl) \<noteq> None"
    by (auto simp: find_None_iff)
  then show "\<exists>first. find (\<lambda>file. hash file = h) (fl_files fl) = Some first"
    by blast
qed

text \<open>A catalog of two records: a hash that is present, and one that is not.\<close>

theorem getFiles_hash_spec_witness:
  "in_sync (built [file_a, file_rac] []) \<and>
   path file_a \<noteq> [] \<and> path file_rac \<noteq> [] \<and>
   getFiles (built [file_a, file_rac] []) ''hash'' ''h2'' = Inr [file_rac] \<and>
   getFiles (built [file_a, file_rac] []) ''hash'' ''h9'' = Inr []"
proof -
  have s: "in_sync (built [file_a, file_rac] [])"
    by (rule in_sync_built)
  have pa: "path file_a \<noteq> []" and pr: "path file_rac \<noteq> []"
    by (simp_all add: file_a_def file_rac_def)
  then have p: "\<forall>file\<in>set (fl_files (built [file_a, file_rac] [])). path file \<noteq> []"
    by (simp add: built_def)
  note w = getFiles_hash_spec [OF s p]
  have f: "find (\<lambda>file. hash file = ''h2'') (fl_files (built [file_a, file_rac] [])) = Some file_rac"
    by (simp add: built_def file_a_def file_rac_def)
  have n: "\<forall>file\<in>set (fl_files (built [file_a, file_rac] [])). hash file \<noteq> ''h9''"
    by (simp add: built_def file_a_def file_rac_def)
  from w [of "''h2''", THEN conjunct2, THEN conjunct2, THEN conjunct1] f
  have "getFiles (built [file_a, file_rac] []) ''hash'' ''h2'' =
      Inr (filter (\<lambda>file. path file = path file_rac) (fl_files (built [file_a, file_rac] [])))"
    by blast
  then have 1: "getFiles (built [file_a, file_rac] []) ''hash'' ''h2'' = Inr [file_rac]"
    by (simp add: built_def file_a_def file_rac_def)
  from w [of "''h9''", THEN conjunct1] n
  have 2: "getFiles (built [file_a, file_rac] []) ''hash'' ''h9'' = Inr []"
    by (rule mp)
  from s pa pr 1 2 show ?thesis by (intro conjI)
qed

section \<open>Choosing a cluster\<close>

lemma random_index_in_range:
  assumes "0 \<le> r" and "r < 1" and "xs \<noteq> []"
  shows "0 \<le> \<lfloor>r * real (length xs)\<rfloor> \<and> \<lfloor>r * real (length xs)\<rfloor> < int (length xs)"
proof -
  have pos: "0 < real (length xs)" using assms(3) by simp
  have "0 \<le> r * real (length xs)" using assms(1) by simp
  then have lo: "0 \<le> \<lfloor>r * real (length xs)\<rfloor>" by simp
  have "r * real (length xs) < 1 * real (length xs)"
    using assms(2) pos by (intro mult_strict_right_mono)
  then have "r * real (length xs) < real_of_int (int (length xs))" by simp
  then have "\<lfloor>r * real (length xs)\<rfloor> < int (length xs)"
    by (simp only: floor_less_iff)
  with lo show ?thesis by (rule conjI)
qed

lemma getRandomElement_empty: "getRandomElement r [] = None"
  by (simp add: getRandomElement_def)

lemma getRandomElement_nonempty:
  assumes "0 \<le> r" and "r < 1" and "xs \<noteq> []"
  shows "\<exists>i<length xs. getRandomElement r xs = Some (xs ! i)"
proof -
  let ?i = "\<lfloor>r * real (length xs)\<rfloor>"
  note range = random_index_in_range [OF assms]
  from range have lo: "0 \<le> ?i" by (rule conjunct1)
  from range have hi: "?i < int (length xs)" by (rule conjunct2)
  from lo hi have n: "nat ?i < length xs"
    by linarith
  have "js_index xs ?i = Some (xs ! nat ?i)"
    unfolding js_index_def using lo hi by (simp only: simp_thms if_True)
  moreover have "length xs \<noteq> 0" using assms(3) by simp
  ultimately have "getRandomElement r xs = Some (xs ! nat ?i)"
    unfolding getRandomElement_def Let_def by (simp only: if_False)
  with n show ?thesis by blast
qed

lemma getRandomElement_member:
  assumes "0 \<le> r" and "r < 1"
  shows "(getRandomElement r xs = None \<longleftrightarrow> xs = []) \<and>
         (\<forall>x. getRandomElement r xs = Some x \<longrightarrow> x \<in> set xs)"
proof (cases "xs = []")
  case True
  then show ?thesis by (simp add: getRandomElement_empty)
next
  case False
  from getRandomElement_nonempty [OF assms False]
  obtain i where i: "i < length xs" "getRandomElement r xs = Some (xs ! i)"
    by blast
  from i(1) have "xs ! i \<in> set xs" by (rule nth_mem)
  with i(2) False show ?thesis by simp
qed

lemma randomAvailableCluster_eq:
  "randomAvailableCluster random fl file clusters =
     getRandomElement random (getAvailableClusters fl (Some file) clusters)"
  by (simp add: randomAvailableCluster_def split: option.splits)

text \<open>
  C8. For every file and pool, and every value in \<open>[0, 1)\<close> of the random source,
  \<open>randomAvailableCluster\<close> returns no cluster exactly when the list of eligible clusters
  is empty, and otherwise returns a member of that list; it never throws.
\<close>

theorem randomAvailableCluster_choice:
  assumes "0 \<le> random" and "random < 1"
  shows "(randomAvailableCluster random fl file clusters = None \<longleftrightarrow>
            getAvailableClusters fl (Some file) clusters = []) \<and>
         (\<forall>c. randomAvailableCluster random fl file clusters = Some c \<longrightarrow>
            c \<in> set (getAvailableClusters fl (Some file) clusters))"
  unfolding randomAvailableCluster_eq
  by (rule getRandomElement_member [OF assms])

text \<open>The two scenarios of the specification: one eligible cluster, and none.\<close>

theorem randomAvailableCluster_choice_witness:
  "(0::real) \<le> 1 / 2 \<and> (1::real) / 2 < 1 \<and>
   randomAvailableCluster (1 / 2) (built [file_a] [cluster_all]) file_a None = Some cluster_all \<and>
   randomAvailableCluster (1 / 2) (built [file_a] [cluster_zero]) file_a None = None"
proof -
  have r0: "(0::real) \<le> 1 / 2" by simp
  have r1: "(1::real) / 2 < 1" by simp
  have one: "getAvailableClusters (built [file_a] [cluster_all]) (Some file_a) None = [cluster_all]"
    by (simp add: getAvailableClusters_filter built_def shard_file_a cluster_all_def)
  have none: "getAvailableClusters (built [file_a] [cluster_zero]) (Some file_a) None = []"
    by (simp add: getAvailableClusters_filter built_def shard_file_a cluster_zero_def)
  note z = randomAvailableCluster_choice [OF r0 r1, of "built [file_a] [cluster_zero]" file_a None]
  note a = randomAvailableCluster_choice [OF r0 r1, of "built [file_a] [cluster_all]" file_a None]
  from z [THEN conjunct1] none
  have 2: "randomAvailableCluster (1 / 2) (built [file_a] [cluster_zero]) file_a None = None"
    by (rule iffD2)
  have ne: "randomAvailableCluster (1 / 2) (built [file_a] [cluster_all]) file_a None \<noteq> None"
  proof
    assume "randomAvailableCluster (1 / 2) (built [file_a] [cluster_all]) file_a None = None"
    with a [THEN conjunct1]
    have "getAvailableClusters (built [file_a] [cluster_all]) (Some file_a) None = []"
      by (rule iffD1)
    with one show False by simp
  qed
  then obtain c where c: "randomAvailableCluster (1 / 2) (built [file_a] [cluster_all]) file_a None = Some c"
    by blast
  with a [THEN conjunct2] have "c \<in> set (getAvailableClusters (built [file_a] [cluster_all]) (Some file_a) None)"
    by blast
  then have "c = cluster_all"
    unfolding one by simp
  with c have 1: "randomAvailableCluster (1 / 2) (built [file_a] [cluster_all]) file_a None = Some cluster_all"
    by simp
  from r0 r1 1 2 show ?thesis by (intro conjI)
qed

section \<open>Random elements of an array\<close>

lemma loop_duplicates_empty:
  "array = [] \<Longrightarrow>
     loop_duplicates rnd array cnt i result = result @ replicate (nat (cnt - int i)) None"
proof (induction rnd array cnt i result rule: loop_duplicates.induct)
  case (1 rnd array cnt i result)
  show ?case
  proof (cases "int i < cnt")
    case True
    then have n: "nat (cnt - int i) = Suc (nat (cnt - int (Suc i)))"
      by simp
    have none: "js_index array \<lfloor>rnd i * real (length array)\<rfloor> = None"
      using "1.prems" by (simp add: js_index_def)
    have "loop_duplicates rnd array cnt i result =
          loop_duplicates rnd array cnt (Suc i) (result @ [None])"
      using True none by (subst loop_duplicates.simps) (simp add: Let_def)
    also have "\<dots> = (result @ [None]) @ replicate (nat (cnt - int (Suc i))) None"
      using "1.IH" [OF True refl "1.prems"] unfolding none .
    also have "\<dots> = result @ replicate (nat (cnt - int i)) None"
      unfolding n by simp
    finally show ?thesis .
  next
    case False
    then show ?thesis
      by (subst loop_duplicates.simps) simp
  qed
qed

lemma getRandomElements_empty_duplicates:
  assumes "h ! array = []"
  shows "getRandomElements rnd h array c True = (Inr (replicate (nat c) None), h)"
  using assms by (simp add: getRandomElements_def loop_duplicates_empty)

lemma js_splice1_in_range:
  assumes "0 \<le> k" and "k < int (length xs)"
  shows "js_splice1 xs k = ([xs ! nat k], take (nat k) xs @ drop (Suc (nat k)) xs)"
proof -
  from assms have n: "nat k < length xs" by linarith
  then have "take 1 (drop (nat k) xs) = [xs ! nat k]"
    by (simp add: take_Suc_conv_app_nth [of 0, simplified] Cons_nth_drop_Suc [symmetric])
  moreover from assms have "nat (if k < 0 then max (int (length xs) + k) 0 else min k (int (length xs))) = nat k"
    by simp
  ultimately show ?thesis
    by (simp only: js_splice1_def Let_def)
qed

lemma mset_remove_nth:
  assumes "n < length xs"
  shows "add_mset (xs ! n) (mset (take n xs @ drop (Suc n) xs)) = mset xs"
proof -
  have "xs = take n xs @ xs ! n # drop (Suc n) xs"
    using assms by (rule id_take_nth_drop)
  then have "mset xs = mset (take n xs @ xs ! n # drop (Suc n) xs)"
    by simp
  then show ?thesis by simp
qed

lemma loop_unique_frame:
  assumes "t < length h"
  shows "\<exists>res h'. loop_unique rnd h t cnt i result = (res, h') \<and>
           length res = length result + nat (cnt - int i) \<and>
           length h' = length h \<and> (\<forall>a. a \<noteq> t \<longrightarrow> h' ! a = h ! a)"
  using assms
proof (induction rnd h t cnt i result rule: loop_unique.induct)
  case (1 rnd h t cnt i result)
  show ?case
  proof (cases "int i < cnt")
    case True
    let ?sp = "js_splice1 (h ! t) \<lfloor>rnd i * real (length (h ! t))\<rfloor>"
    let ?h = "h[t := snd ?sp]"
    let ?result = "result @ [js_index (fst ?sp) 0]"
    have step: "loop_unique rnd h t cnt i result = loop_unique rnd ?h t cnt (Suc i) ?result"
      using True by (subst loop_unique.simps) (simp add: Let_def)
    have "t < length ?h" using "1.prems" by simp
    from "1.IH" [OF True refl refl this]
    obtain res h' where r: "loop_unique rnd ?h t cnt (Suc i) ?result = (res, h')"
      "length res = length ?result + nat (cnt - int (Suc i))"
      "length h' = length ?h" "\<forall>a. a \<noteq> t \<longrightarrow> h' ! a = ?h ! a"
      by blast
    from True have "nat (cnt - int i) = Suc (nat (cnt - int (Suc i)))" by simp
    with r have "loop_unique rnd h t cnt i result = (res, h')"
      "length res = length result + nat (cnt - int i)"
      "length h' = length h" "\<forall>a. a \<noteq> t \<longrightarrow> h' ! a = h ! a"
      by (simp_all add: step)
    then show ?thesis by blast
  next
    case False
    then have "loop_unique rnd h t cnt i result = (result, h)"
      by (subst loop_unique.simps) simp
    with False show ?thesis by simp
  qed
qed


lemma loop_unique_picks:
  assumes "unit_interval rnd" and "t < length h" and "cnt - int i \<le> int (length (h ! t))"
  shows "\<exists>res h'. loop_unique rnd h t cnt i result = (res, h') \<and>
           mset res + mset (map Some (h' ! t)) = mset result + mset (map Some (h ! t))"
  using assms
proof (induction rnd h t cnt i result rule: loop_unique.induct)
  case (1 rnd h t cnt i result)
  show ?case
  proof (cases "int i < cnt")
    case True
    let ?k = "\<lfloor>rnd i * real (length (h ! t))\<rfloor>"
    let ?sp = "js_splice1 (h ! t) ?k"
    let ?h = "h[t := snd ?sp]"
    let ?result = "result @ [js_index (fst ?sp) 0]"
    have step: "loop_unique rnd h t cnt i result = loop_unique rnd ?h t cnt (Suc i) ?result"
      using True by (subst loop_unique.simps) (simp add: Let_def)
    from True "1.prems" have ne: "h ! t \<noteq> []" by auto
    from "1.prems"(1) have "0 \<le> rnd i" "rnd i < 1" by (simp_all add: unit_interval_def)
    from random_index_in_range [OF this ne] have k: "0 \<le> ?k" "?k < int (length (h ! t))"
      by simp_all
    then have n: "nat ?k < length (h ! t)" by linarith
    have sp: "?sp = ([h ! t ! nat ?k], take (nat ?k) (h ! t) @ drop (Suc (nat ?k)) (h ! t))"
      using k by (rule js_splice1_in_range)
    have picked: "js_index (fst ?sp) 0 = Some (h ! t ! nat ?k)"
      unfolding sp by (simp add: js_index_def)
    have rest: "?h ! t = take (nat ?k) (h ! t) @ drop (Suc (nat ?k)) (h ! t)"
      unfolding sp using "1.prems" by simp
    have len: "int (length (?h ! t)) = int (length (h ! t)) - 1"
      unfolding rest using n by simp
    have "t < length ?h" using "1.prems" by simp
    moreover have "cnt - int (Suc i) \<le> int (length (?h ! t))"
      using "1.prems" len by simp
    ultimately obtain res h' where r: "loop_unique rnd ?h t cnt (Suc i) ?result = (res, h')"
      "mset res + mset (map Some (h' ! t)) = mset ?result + mset (map Some (?h ! t))"
      using "1.IH" [OF True refl refl "1.prems"(1)] by blast
    have "mset ?result + mset (map Some (?h ! t)) =
          mset result + image_mset Some (add_mset (h ! t ! nat ?k) (mset (?h ! t)))"
      unfolding picked by simp
    also have "add_mset (h ! t ! nat ?k) (mset (?h ! t)) = mset (h ! t)"
      unfolding rest using n by (rule mset_remove_nth)
    finally have "mset res + mset (map Some (h' ! t)) = mset result + mset (map Some (h ! t))"
      using r(2) by simp
    with r(1) step show ?thesis by simp
  next
    case False
    then have "loop_unique rnd h t cnt i result = (result, h)"
      by (subst loop_unique.simps) simp
    then show ?thesis by simp
  qed
qed

lemma getRandomElements_unique_run:
  assumes "array < length h" and "0 \<le> cnt" and "cnt \<le> int (length (h ! array))"
  shows "\<exists>result h'. getRandomElements rnd h array cnt False = (Inr result, h') \<and>
           int (length result) = cnt \<and> h' ! array = h ! array \<and> take (length h) h' = h \<and>
           (unit_interval rnd \<longrightarrow> mset result \<subseteq># mset (map Some (h ! array)))"
proof -
  let ?t = "length h"
  let ?h1 = "h @ [h ! array]"
  have t: "?t < length ?h1" by simp
  from loop_unique_frame [OF t, of rnd cnt 0 "[]"]
  obtain res h' where r: "loop_unique rnd ?h1 ?t cnt 0 [] = (res, h')"
    "length res = nat cnt" "length h' = length ?h1" "\<forall>a. a \<noteq> ?t \<longrightarrow> h' ! a = ?h1 ! a"
    by auto
  have run: "getRandomElements rnd h array cnt False = (Inr res, h')"
    using assms(3) r(1) by (simp add: getRandomElements_def Let_def)
  have len: "int (length res) = cnt"
    using r(2) assms(2) by simp
  have old: "h' ! a = h ! a" if "a < length h" for a
    using that r(4) by (simp add: nth_append)
  then have same: "h' ! array = h ! array"
    using assms(1) by simp
  have prefix: "take (length h) h' = h"
    using r(3) old by (intro nth_equalityI) simp_all
  have picks: "mset res \<subseteq># mset (map Some (h ! array))" if "unit_interval rnd"
  proof -
    have "cnt - int 0 \<le> int (length (?h1 ! ?t))"
      using assms(3) by simp
    from loop_unique_picks [OF that t this, of "[]"] r(1)
    have "mset res + mset (map Some (h' ! ?t)) = mset (map Some (h ! array))"
      by simp
    then have "mset (map Some (h ! array)) = mset res + mset (map Some (h' ! ?t))"
      by (rule sym)
    then show ?thesis
      by (simp only: mset_subset_eq_add_left)
  qed
  from run len same prefix picks show ?thesis by blast
qed

lemma getRandomElements_too_many:
  assumes "int (length (h ! array)) < cnt"
  shows "getRandomElements rnd h array cnt False = (Inl count_error, h)"
  using assms by (simp add: getRandomElements_def)

text \<open>
  C7. With duplicates disallowed, for every source array and every count greater than its
  length, \<open>getRandomElements\<close> throws the error (an \<open>Error\<close> with the message about the
  count), returns no result, and leaves the store, so the source array, as it was. With a
  count from 0 to the length it returns exactly that many elements and leaves the source
  array, and every other array there was, unmodified: only the fresh copy is spliced.
  When the random source stays in \<open>[0, 1)\<close> the elements returned are elements of the
  source, each taken at most as often as the source holds it.
\<close>

theorem getRandomElements_unique:
  assumes "array < length h"
  shows "(int (length (h ! array)) < cnt \<longrightarrow>
            getRandomElements rnd h array cnt False = (Inl count_error, h)) \<and>
         (0 \<le> cnt \<and> cnt \<le> int (length (h ! array)) \<longrightarrow>
            (\<exists>result h'. getRandomElements rnd h array cnt False = (Inr result, h') \<and>
               int (length result) = cnt \<and> h' ! array = h ! array \<and> take (length h) h' = h \<and>
               (unit_interval rnd \<longrightarrow> mset result \<subseteq># mset (map Some (h ! array)))))"
proof (intro conjI impI)
  assume "int (length (h ! array)) < cnt"
  then show "getRandomElements rnd h array cnt False = (Inl count_error, h)"
    by (rule getRandomElements_too_many)
next
  assume "0 \<le> cnt \<and> cnt \<le> int (length (h ! array))"
  then have "0 \<le> cnt" and "cnt \<le> int (length (h ! array))" by simp_all
  with assms show "\<exists>result h'. getRandomElements rnd h array cnt False = (Inr result, h') \<and>
               int (length result) = cnt \<and> h' ! array = h ! array \<and> take (length h) h' = h \<and>
               (unit_interval rnd \<longrightarrow> mset result \<subseteq># mset (map Some (h ! array)))"
    by (rule getRandomElements_unique_run)
qed

text \<open>A run on three elements, every random value being one half.\<close>

lemma getRandomElements_example:
  "getRandomElements (\<lambda>i. 1 / 2) [[10, 20, 30 :: nat]] 0 2 False =
     (Inr [Some 20, Some 30], [[10, 20, 30], [10]])"
  by (simp add: getRandomElements_def loop_unique.simps js_splice1_def js_index_def Let_def)

theorem getRandomElements_unique_witness:
  "0 < length [[10, 20, 30 :: nat]] \<and>
   getRandomElements (\<lambda>i. 1 / 2) [[10, 20, 30 :: nat]] 0 5 False =
     (Inl count_error, [[10, 20, 30]]) \<and>
   (\<exists>result h'. getRandomElements (\<lambda>i. 1 / 2) [[10, 20, 30 :: nat]] 0 2 False = (Inr result, h') \<and>
      length result = 2 \<and> h' ! 0 = [10, 20, 30])"
proof -
  have v: "(0::nat) < length [[10, 20, 30 :: nat]]" by simp
  note w = getRandomElements_unique [OF v, of _ "\<lambda>i. 1 / 2"]
  from w [of 5, THEN conjunct1]
  have 1: "getRandomElements (\<lambda>i. 1 / 2) [[10, 20, 30 :: nat]] 0 5 False =
     (Inl count_error, [[10, 20, 30]])"
    by simp
  from w [of 2, THEN conjunct2]
  obtain result h' where "getRandomElements (\<lambda>i. 1 / 2) [[10, 20, 30 :: nat]] 0 2 False = (Inr result, h')"
    "int (length result) = 2" "h' ! 0 = [[10, 20, 30 :: nat]] ! 0"
    by auto
  then have 2: "\<exists>result h'. getRandomElements (\<lambda>i. 1 / 2) [[10, 20, 30 :: nat]] 0 2 False = (Inr result, h') \<and>
      length result = 2 \<and> h' ! 0 = [10, 20, 30]"
    by auto
  from v 1 2 show ?thesis by (intro conjI)
qed

text \<open>
  C10. For every count \<open>c > 0\<close>, \<open>getRandomElements\<close> on an empty source array with
  duplicates allowed throws nothing: it returns a list of exactly \<open>c\<close> entries, each the
  \<open>undefined\<close> that indexing the empty array gives, whatever the random values, and
  leaves the store as it was.
\<close>

theorem getRandomElements_empty_source:
  assumes "array < length h" and "h ! array = []" and "0 < c"
  shows "\<exists>result. getRandomElements rnd h array c True = (Inr result, h) \<and>
           int (length result) = c \<and> result = replicate (nat c) None"
  using assms by (simp add: getRandomElements_empty_duplicates)

theorem getRandomElements_empty_source_witness:
  "getRandomElements (\<lambda>i. 1 / 2) [[] :: nat list] 0 3 True = (Inr [None, None, None], [[]])"
proof -
  have "\<exists>result. getRandomElements (\<lambda>i. 1 / 2) [[] :: nat list] 0 3 True = (Inr result, [[]]) \<and>
           int (length result) = 3 \<and> result = replicate (nat 3) None"
    by (rule getRandomElements_empty_source) simp_all
  then show ?thesis
    by (simp add: numeral_3_eq_3)
qed

section \<open>File information\<close>

lemma getFileInfoSync_failure:
  assumes "getFileInfoSync_try pf p = Inl err"
  shows "getFileInfoSync pf p =
     \<lparr>info_hash = replicate 40 CHR ''0'', info_size = 0, info_lastModified = 0\<rparr>"
proof -
  have "replicate 40 CHR ''0'' = ''0000000000000000000000000000000000000000''"
    by (simp add: eval_nat_numeral)
  with assms show ?thesis
    by (simp add: getFileInfoSync_def)
qed

lemma getFileInfoSync_try_cases:
  "(\<exists>err. getFileInfoSync_try pf p = Inl err \<and>
       (statSync_mtime pf p = Inl err \<or> createHash pf ''sha256'' = Inl err \<or>
        readFileSync pf p = Inl err)) \<or>
   (\<exists>mtime sha256 data. statSync_mtime pf p = Inr mtime \<and>
       createHash pf ''sha256'' = Inr sha256 \<and> readFileSync pf p = Inr data \<and>
       getFileInfoSync_try pf p =
         Inr \<lparr>info_hash = hex (sha256 data), info_size = int (length data),
              info_lastModified = mtime\<rparr>)"
  by (auto simp: getFileInfoSync_try_def split: sum.splits)

lemma getFileInfoSync_try_failure:
  assumes "statSync_mtime pf p = Inl err \<or> createHash pf ''sha256'' = Inl err \<or>
           readFileSync pf p = Inl err"
  shows "\<exists>err'. getFileInfoSync_try pf p = Inl err'"
  using assms by (auto simp: getFileInfoSync_try_def split: sum.splits)

lemma getFileInfoSync_success:
  assumes "statSync_mtime pf p = Inr mtime" and "createHash pf ''sha256'' = Inr sha256"
    and "readFileSync pf p = Inr data"
  shows "getFileInfoSync pf p =
     \<lparr>info_hash = hex (sha256 data), info_size = int (length data), info_lastModified = mtime\<rparr>"
  using assms by (simp add: getFileInfoSync_def getFileInfoSync_try_def)

text \<open>
  C6. For every path, when \<^verbatim>\<open>statSync\<close>, \<^verbatim>\<open>createHash\<close> and \<^verbatim>\<open>readFileSync\<close> all succeed,
  \<open>getFileInfoSync\<close> returns the hexadecimal SHA-256 digest of the content, the number of
  bytes of the content and the modification time of the file; whenever one of them throws
  it returns exactly the fixed record whose hash is forty characters \<open>0\<close> and whose size and
  modification time are 0. So its result is always one of the two. It is a total function
  to records: no exception leaves it.
\<close>

theorem getFileInfoSync_spec:
  "(getFileInfoSync pf p =
      \<lparr>info_hash = replicate 40 CHR ''0'', info_size = 0, info_lastModified = 0\<rparr> \<or>
    (\<exists>mtime sha256 data. statSync_mtime pf p = Inr mtime \<and>
       createHash pf ''sha256'' = Inr sha256 \<and> readFileSync pf p = Inr data \<and>
       getFileInfoSync pf p =
         \<lparr>info_hash = hex (sha256 data), info_size = int (length data),
          info_lastModified = mtime\<rparr>)) \<and>
   (\<forall>err. statSync_mtime pf p = Inl err \<or> createHash pf ''sha256'' = Inl err \<or>
          readFileSync pf p = Inl err \<longrightarrow>
      getFileInfoSync pf p =
        \<lparr>info_hash = replicate 40 CHR ''0'', info_size = 0, info_lastModified = 0\<rparr>) \<and>
   (\<forall>mtime sha256 data. statSync_mtime pf p = Inr mtime \<and>
          createHash pf ''sha256'' = Inr sha256 \<and> readFileSync pf p = Inr data \<longrightarrow>
      getFileInfoSync pf p =
        \<lparr>info_hash = hex (sha256 data), info_size = int (length data),
         info_lastModified = mtime\<rparr>)"
proof (intro conjI allI impI)
  consider (fail) err where "getFileInfoSync_try pf p = Inl err"
    | (ok) mtime sha256 data where "statSync_mtime pf p = Inr mtime"
        "createHash pf ''sha256'' = Inr sha256" "readFileSync pf p = Inr data"
    using getFileInfoSync_try_cases [of pf p] by blast
  then show "getFileInfoSync pf p =
      \<lparr>info_hash = replicate 40 CHR ''0'', info_size = 0, info_lastModified = 0\<rparr> \<or>
    (\<exists>mtime sha256 data. statSync_mtime pf p = Inr mtime \<and>
       createHash pf ''sha256'' = Inr sha256 \<and> readFileSync pf p = Inr data \<and>
       getFileInfoSync pf p =
         \<lparr>info_hash = hex (sha256 data), info_size = int (length data),
          info_lastModified = mtime\<rparr>)"
  proof cases
    case fail
    then show ?thesis by (intro disjI1 getFileInfoSync_failure)
  next
    case ok
    from ok have "getFileInfoSync pf p =
         \<lparr>info_hash = hex (sha256 data), info_size = int (length data),
          info_lastModified = mtime\<rparr>"
      by (rule getFileInfoSync_success)
    with ok show ?thesis by blast
  qed
next
  fix err
  assume "statSync_mtime pf p = Inl err \<or> createHash pf ''sha256'' = Inl err \<or>
          readFileSync pf p = Inl err"
  then obtain err' where "getFileInfoSync_try pf p = Inl err'"
    using getFileInfoSync_try_failure by blast
  then show "getFileInfoSync pf p =
        \<lparr>info_hash = replicate 40 CHR ''0'', info_size = 0, info_lastModified = 0\<rparr>"
    by (rule getFileInfoSync_failure)
next
  fix mtime sha256 data
  assume "statSync_mtime pf p = Inr mtime \<and>
          createHash pf ''sha256'' = Inr sha256 \<and> readFileSync pf p = Inr data"
  then have "statSync_mtime pf p = Inr mtime" "createHash pf ''sha256'' = Inr sha256"
    "readFileSync pf p = Inr data"
    by simp_all
  then show "getFileInfoSync pf p =
        \<lparr>info_hash = hex (sha256 data), info_size = int (length data),
         info_lastModified = mtime\<rparr>"
    by (rule getFileInfoSync_success)
qed

text \<open>A file that is there, and one that is not.\<close>

lemma hex_sha256_hi:
  "hex sha256_hi = ''8f434346648f6b96df89dda901c5176b10a6d83961dd3c1ac88b59b2dc327aa4''"
  by (simp add: hex_def sha256_hi_def hex_digit_def)

theorem getFileInfoSync_spec_witness:
  "getFileInfoSync disk_platform ''/data/a.txt'' =
     \<lparr>info_hash = ''8f434346648f6b96df89dda901c5176b10a6d83961dd3c1ac88b59b2dc327aa4'',
      info_size = 2, info_lastModified = 1000\<rparr> \<and>
   getFileInfoSync disk_platform ''/data/b.txt'' =
     \<lparr>info_hash = ''0000000000000000000000000000000000000000'', info_size = 0,
      info_lastModified = 0\<rparr>"
proof -
  note w = getFileInfoSync_spec [of disk_platform]
  have "statSync_mtime disk_platform ''/data/b.txt'' = Inl (SystemError ''ENOENT'')"
    by (simp add: disk_platform_def)
  with w [of "''/data/b.txt''", THEN conjunct2, THEN conjunct1]
  have "getFileInfoSync disk_platform ''/data/b.txt'' =
        \<lparr>info_hash = replicate 40 CHR ''0'', info_size = 0, info_lastModified = 0\<rparr>"
    by blast
  then have 2: "getFileInfoSync disk_platform ''/data/b.txt'' =
     \<lparr>info_hash = ''0000000000000000000000000000000000000000'', info_size = 0,
      info_lastModified = 0\<rparr>"
    by (simp add: eval_nat_numeral)
  have "statSync_mtime disk_platform ''/data/a.txt'' = Inr 1000 \<and>
        createHash disk_platform ''sha256'' = Inr (\<lambda>data. sha256_hi) \<and>
        readFileSync disk_platform ''/data/a.txt'' = Inr ''hi''"
    by (simp add: disk_platform_def)
  with w [of "''/data/a.txt''", THEN conjunct2, THEN conjunct2]
  have "getFileInfoSync disk_platform ''/data/a.txt'' =
        \<lparr>info_hash = hex ((\<lambda>data. sha256_hi) ''hi''), info_size = int (length ''hi''),
         info_lastModified = 1000\<rparr>"
    by blast
  then have 1: "getFileInfoSync disk_platform ''/data/a.txt'' =
     \<lparr>info_hash = ''8f434346648f6b96df89dda901c5176b10a6d83961dd3c1ac88b59b2dc327aa4'',
      info_size = 2, info_lastModified = 1000\<rparr>"
    by (simp add: hex_sha256_hi)
  from 1 2 show ?thesis by (rule conjI)
qed

section \<open>URL-safe base64\<close>

lemma url_alphabet_map:
  "map (\<lambda>c. if c = CHR ''/'' then CHR ''_'' else c)
     (map (\<lambda>c. if c = CHR ''+'' then CHR ''-'' else c)
        ''ABCDEFGHIJKLMNOPQRSTUVWXYZabcdefghijklmnopqrstuvwxyz0123456789+/'') =
   ''ABCDEFGHIJKLMNOPQRSTUVWXYZabcdefghijklmnopqrstuvwxyz0123456789-_''"
  by simp

lemma url_safe_char:
  assumes "n < 64"
  shows "(if (if base64_char n = CHR ''+'' then CHR ''-'' else base64_char n) = CHR ''/''
          then CHR ''_''
          else (if base64_char n = CHR ''+'' then CHR ''-'' else base64_char n)) =
         base64url_char n"
proof -
  let ?std = "''ABCDEFGHIJKLMNOPQRSTUVWXYZabcdefghijklmnopqrstuvwxyz0123456789+/''"
  let ?f = "\<lambda>c. if c = CHR ''+'' then CHR ''-'' else c"
  let ?g = "\<lambda>c. if c = CHR ''/'' then CHR ''_'' else c"
  have len: "length ?std = 64" by simp
  have "base64url_char n = map ?g (map ?f ?std) ! n"
    unfolding base64url_char_def url_alphabet_map ..
  also have "\<dots> = ?g (?f (?std ! n))"
    using assms len by (simp only: nth_map length_map)
  finally show ?thesis
    by (simp only: base64_char_def)
qed

lemma base64url_char_plain:
  assumes "n < 64"
  shows "base64url_char n \<notin> {CHR ''='', CHR ''+'', CHR ''/''}"
proof -
  let ?url = "''ABCDEFGHIJKLMNOPQRSTUVWXYZabcdefghijklmnopqrstuvwxyz0123456789-_''"
  have "length ?url = 64" by simp
  with assms have "?url ! n \<in> set ?url"
    by (simp only: nth_mem)
  moreover have "CHR ''='' \<notin> set ?url" "CHR ''+'' \<notin> set ?url" "CHR ''/'' \<notin> set ?url"
    by simp_all
  ultimately show ?thesis
    unfolding base64url_char_def by auto
qed

lemma replace_all_twice:
  "replace_all CHR ''/'' CHR ''_'' (replace_all CHR ''+'' CHR ''-'' s) = map url_replace s"
  by (simp add: replace_all_def url_replace_def comp_def)

lemma url_replace_base64_char: "n < 64 \<Longrightarrow> url_replace (base64_char n) = base64url_char n"
  unfolding url_replace_def by (rule url_safe_char)

lemma url_replace_pad: "url_replace CHR ''='' = CHR ''=''"
  by (simp add: url_replace_def)

lemma sextets:
  fixes a b c :: char
  defines "n \<equiv> (of_char a * 65536 + of_char b * 256 + of_char c :: nat)"
  shows "n div 262144 < 64" "n div 4096 mod 64 < 64" "n div 64 mod 64 < 64" "n mod 64 < 64"
proof -
  have "of_char a < (256::nat)" "of_char b < (256::nat)" "of_char c < (256::nat)"
    by simp_all
  then have "n < 16777216" unfolding n_def by linarith
  then show "n div 262144 < 64" by simp
qed simp_all

lemma sextets2:
  fixes a b :: char
  shows "(of_char a * 65536 + of_char b * 256 :: nat) div 262144 < 64"
  using sextets(1) [of a b "CHR 0x00"] by simp

lemma sextets1:
  fixes a :: char
  shows "(of_char a * 65536 :: nat) div 262144 < 64"
  using sextets(1) [of a "CHR 0x00" "CHR 0x00"] by simp

lemma map_url_replace_base64:
  "\<exists>k. map url_replace (base64 bs) = base64url bs @ replicate k CHR ''=''"
proof (induction bs rule: base64.induct)
  case (1 a b c rest)
  then obtain k where "map url_replace (base64 rest) = base64url rest @ replicate k CHR ''=''"
    by blast
  then have "map url_replace (base64 (a # b # c # rest)) =
        base64url (a # b # c # rest) @ replicate k CHR ''=''"
    by (simp add: Let_def url_replace_base64_char sextets)
  then show ?case ..
next
  case (2 a b)
  have "map url_replace (base64 [a, b]) = base64url [a, b] @ replicate 1 CHR ''=''"
    by (simp add: Let_def url_replace_base64_char url_replace_pad sextets2)
  then show ?case ..
next
  case (3 a)
  have "of_char a < (256::nat)" by simp
  then have "of_char a div 4 < (64::nat)" by linarith
  then have "map url_replace (base64 [a]) = base64url [a] @ replicate 2 CHR ''=''"
    by (simp add: Let_def url_replace_base64_char url_replace_pad sextets1 numeral_2_eq_2)
  then show ?case ..
next
  case 4
  have "map url_replace (base64 []) = base64url [] @ replicate 0 CHR ''=''"
    by simp
  then show ?case ..
qed

lemma base64url_plain:
  "set (base64url bs) \<inter> {CHR ''='', CHR ''+'', CHR ''/''} = {}"
proof (induction bs rule: base64url.induct)
  case (1 a b c rest)
  let ?n = "(of_char a * 65536 + of_char b * 256 + of_char c :: nat)"
  note s = sextets [of a b c]
  from base64url_char_plain [OF s(1)] base64url_char_plain [OF s(2)]
    base64url_char_plain [OF s(3)] base64url_char_plain [OF s(4)] 1
  show ?case by (simp add: Let_def)
next
  case (2 a b)
  from base64url_char_plain [OF sextets2 [of a b]]
    base64url_char_plain [of "(of_char a * 65536 + of_char b * 256) div 4096 mod 64"]
    base64url_char_plain [of "(of_char a * 65536 + of_char b * 256) div 64 mod 64"]
  show ?case by (simp add: Let_def)
next
  case (3 a)
  from base64url_char_plain [OF sextets1 [of a]]
    base64url_char_plain [of "(of_char a * 65536) div 4096 mod 64"]
  show ?case by (simp add: Let_def)
next
  case 4
  show ?case by simp
qed

lemma remove_trailing_padding:
  assumes "x \<notin> set s"
  shows "remove_trailing x (s @ replicate k x) = s"
proof -
  have "dropWhile (\<lambda>c. c = x) (replicate k x @ rev s) = dropWhile (\<lambda>c. c = x) (rev s)"
    by (rule dropWhile_append2) simp
  also have "\<dots> = rev s"
    using assms by (intro dropWhile_id) auto
  finally show ?thesis
    by (simp add: remove_trailing_def)
qed

lemma toUrlSafeBase64String_base64url: "toUrlSafeBase64String buffer = base64url buffer"
proof -
  obtain k where k: "map url_replace (base64 buffer) = base64url buffer @ replicate k CHR ''=''"
    using map_url_replace_base64 by blast
  have "CHR ''='' \<notin> set (base64url buffer)"
    using base64url_plain [of buffer] by auto
  then have "remove_trailing CHR ''='' (base64url buffer @ replicate k CHR ''='') = base64url buffer"
    by (rule remove_trailing_padding)
  then show ?thesis
    by (simp only: toUrlSafeBase64String_def replace_all_twice k)
qed

section \<open>Base-36 numerals\<close>

lemma digit_values:
  "map digit_value ''0123456789abcdefghijklmnopqrstuvwxyz'' = [0..<36]"
  by code_simp

lemma digit_value_digit36:
  assumes "d < 36"
  shows "digit_value (digit36 d) = d"
proof -
  let ?ds = "''0123456789abcdefghijklmnopqrstuvwxyz''"
  have len: "length ?ds = 36" by simp
  have "digit_value (?ds ! d) = map digit_value ?ds ! d"
    using assms len by (simp only: nth_map)
  also have "\<dots> = [0..<36] ! d"
    by (simp only: digit_values)
  also have "\<dots> = d"
    using assms by (simp only: nth_upt add_0 minus_nat.diff_0)
  finally show ?thesis
    by (simp only: digit36_def)
qed

lemma digit36_not_minus:
  assumes "d < 36"
  shows "digit36 d \<noteq> CHR ''-''"
proof -
  let ?ds = "''0123456789abcdefghijklmnopqrstuvwxyz''"
  have "length ?ds = 36" by simp
  with assms have "?ds ! d \<in> set ?ds"
    by (simp only: nth_mem)
  moreover have "CHR ''-'' \<notin> set ?ds"
    by simp
  ultimately show ?thesis
    unfolding digit36_def by auto
qed

lemma value36_snoc: "value36 (s @ [c]) = 36 * value36 s + digit_value c"
  by (simp add: value36_def)

lemma value36_digits36: "value36 (digits36 n) = n"
proof (induction n rule: digits36.induct)
  case (1 n)
  show ?case
  proof (cases "n < 36")
    case True
    then have "digits36 n = [digit36 n]"
      by (subst digits36.simps) simp
    with True show ?thesis
      by (simp add: value36_def digit_value_digit36)
  next
    case False
    then have "digits36 n = digits36 (n div 36) @ [digit36 (n mod 36)]"
      by (subst digits36.simps) simp
    moreover have "value36 (digits36 (n div 36)) = n div 36"
      using False by (intro "1.IH") simp
    ultimately show ?thesis
      by (simp add: value36_snoc digit_value_digit36)
  qed
qed

lemma digits36_first: "\<exists>d cs. d < 36 \<and> digits36 n = digit36 d # cs"
proof (induction n rule: digits36.induct)
  case (1 n)
  show ?case
  proof (cases "n < 36")
    case True
    then have "digits36 n = [digit36 n]"
      by (subst digits36.simps) simp
    with True show ?thesis by blast
  next
    case False
    then have eq: "digits36 n = digits36 (n div 36) @ [digit36 (n mod 36)]"
      by (subst digits36.simps) simp
    from False obtain d cs where "d < 36" "digits36 (n div 36) = digit36 d # cs"
      using "1.IH" by auto
    with eq have "d < 36 \<and> digits36 n = digit36 d # (cs @ [digit36 (n mod 36)])"
      by simp
    then show ?thesis by blast
  qed
qed

lemma parse36_toString36: "parse36 (toString36 n) = n"
proof (cases "n < 0")
  case True
  then show ?thesis
    by (simp add: parse36_def toString36_def value36_digits36)
next
  case False
  obtain d cs where d: "d < 36" "digits36 (nat n) = digit36 d # cs"
    using digits36_first by blast
  from d(1) have "digit36 d \<noteq> CHR ''-''" by (rule digit36_not_minus)
  with d(2) have "parse36 (digits36 (nat n)) = int (value36 (digits36 (nat n)))"
    by (simp add: parse36_def)
  with False show ?thesis
    by (simp add: toString36_def value36_digits36)
qed

section \<open>The signature\<close>

lemma getSign_hashed:
  assumes "createHash pf ''sha1'' = Inr sha1"
  shows "getSign pf p secret =
     Some (''s='' @ toUrlSafeBase64String (sha1 (secret @ p @ toString36 (Date_now pf + 300000))) @
           ''&e='' @ toString36 (Date_now pf + 300000))"
  using assms by (simp add: getSign_def Let_def)

lemma getSign_no_hash:
  assumes "createHash pf ''sha1'' = Inl err"
  shows "getSign pf p secret = None"
  using assms by (simp add: getSign_def)

text \<open>
  C5 (amended). For every path and secret, when the platform gives a SHA-1 hash object,
  \<open>getSign\<close> returns the string \<open>s=<sig>&e=<exp>\<close>, where \<open>exp\<close> is the base-36 numeral of
  the clock's time plus 5 minutes (300000 milliseconds; reading the numeral gives that
  number back) and \<open>sig\<close> is the base64 of the SHA-1 digest of secret, path and \<open>exp\<close>
  concatenated, with \<open>+\<close> replaced by \<open>-\<close>, \<open>/\<close> replaced by \<open>_\<close> and the trailing \<open>=\<close>
  removed: that is the unpadded URL-safe base64 of the digest, in which none of \<open>=\<close>, \<open>+\<close>
  and \<open>/\<close> occurs. When \<^verbatim>\<open>createHash\<close> throws, \<open>getSign\<close> returns \<^verbatim>\<open>null\<close>.
\<close>

theorem getSign_spec:
  "(\<forall>sha1. createHash pf ''sha1'' = Inr sha1 \<longrightarrow>
      (\<exists>e sig. getSign pf p secret = Some (''s='' @ sig @ ''&e='' @ e) \<and>
         e = toString36 (Date_now pf + 5 * 60 * 1000) \<and>
         parse36 e = Date_now pf + 5 * 60 * 1000 \<and>
         sig = remove_trailing CHR ''=''
                 (replace_all CHR ''/'' CHR ''_''
                    (replace_all CHR ''+'' CHR ''-'' (base64 (sha1 (secret @ p @ e))))) \<and>
         sig = base64url (sha1 (secret @ p @ e)) \<and>
         set sig \<inter> {CHR ''='', CHR ''+'', CHR ''/''} = {})) \<and>
   (\<forall>err. createHash pf ''sha1'' = Inl err \<longrightarrow> getSign pf p secret = None)"
proof (intro conjI allI impI)
  fix sha1
  assume h: "createHash pf ''sha1'' = Inr sha1"
  let ?e = "toString36 (Date_now pf + 5 * 60 * 1000)"
  let ?sig = "toUrlSafeBase64String (sha1 (secret @ p @ ?e))"
  have "getSign pf p secret = Some (''s='' @ ?sig @ ''&e='' @ ?e)"
    using getSign_hashed [OF h, of p secret] by simp
  moreover have "parse36 ?e = Date_now pf + 5 * 60 * 1000"
    by (rule parse36_toString36)
  moreover have "?sig = remove_trailing CHR ''=''
                 (replace_all CHR ''/'' CHR ''_''
                    (replace_all CHR ''+'' CHR ''-'' (base64 (sha1 (secret @ p @ ?e)))))"
    by (simp only: toUrlSafeBase64String_def)
  moreover have "?sig = base64url (sha1 (secret @ p @ ?e))"
    by (rule toUrlSafeBase64String_base64url)
  moreover have "set ?sig \<inter> {CHR ''='', CHR ''+'', CHR ''/''} = {}"
    unfolding toUrlSafeBase64String_base64url by (rule base64url_plain)
  ultimately show "\<exists>e sig. getSign pf p secret = Some (''s='' @ sig @ ''&e='' @ e) \<and>
         e = toString36 (Date_now pf + 5 * 60 * 1000) \<and>
         parse36 e = Date_now pf + 5 * 60 * 1000 \<and>
         sig = remove_trailing CHR ''=''
                 (replace_all CHR ''/'' CHR ''_''
                    (replace_all CHR ''+'' CHR ''-'' (base64 (sha1 (secret @ p @ e))))) \<and>
         sig = base64url (sha1 (secret @ p @ e)) \<and>
         set sig \<inter> {CHR ''='', CHR ''+'', CHR ''/''} = {}"
    by blast
next
  fix err
  assume "createHash pf ''sha1'' = Inl err"
  then show "getSign pf p secret = None"
    by (rule getSign_no_hash)
qed

text \<open>The signature of \<^verbatim>\<open>/files/11.txt\<close> under the secret \<^verbatim>\<open>secret\<close>.\<close>

lemma toString36_example: "toString36 (1700000000000 + 5 * 60 * 1000) = ''loywaajk''"
  by (simp add: toString36_def digits36.simps digit36_def)

lemma base64_example: "base64 sha1_example = ''mqkPiBjyRfUZ/MUfG6R7Nkn+lHs=''"
  by (simp add: sha1_example_def base64_char_def)

lemma base64url_example: "base64url sha1_example = ''mqkPiBjyRfUZ_MUfG6R7Nkn-lHs''"
  by (simp add: sha1_example_def base64url_char_def)

theorem getSign_spec_witness:
  "createHash signing_platform ''sha1'' = Inr (\<lambda>data. sha1_example) \<and>
   getSign signing_platform ''/files/11.txt'' ''secret'' =
     Some ''s=mqkPiBjyRfUZ_MUfG6R7Nkn-lHs&e=loywaajk''"
proof -
  have h: "createHash signing_platform ''sha1'' = Inr (\<lambda>data. sha1_example)"
    by (simp add: signing_platform_def)
  have now: "Date_now signing_platform = 1700000000000"
    by (simp add: signing_platform_def)
  from getSign_spec [of signing_platform "''/files/11.txt''" "''secret''", THEN conjunct1] h
  obtain e sig where r: "getSign signing_platform ''/files/11.txt'' ''secret'' =
      Some (''s='' @ sig @ ''&e='' @ e)"
    "e = toString36 (Date_now signing_platform + 5 * 60 * 1000)"
    "sig = base64url sha1_example"
    by blast
  from r(2) have "e = ''loywaajk''"
    unfolding now toString36_example .
  with r(1,3) have "getSign signing_platform ''/files/11.txt'' ''secret'' =
     Some ''s=mqkPiBjyRfUZ_MUfG6R7Nkn-lHs&e=loywaajk''"
    by (simp add: base64url_example)
  with h show ?thesis by (rule conjI)
qed

text \<open>On a platform that gives no hash object, no string is returned.\<close>

theorem getSign_null_counterexample:
  "getSign hashless_platform ''/files/11.txt'' ''secret'' = None"
  by (simp add: getSign_def hashless_platform_def)

end
